theory Spec2Isabelle
  imports Main
begin

section \<open>Data model of PluginPersistor.ts\<close>

text \<open>
  Strings are lists of 8-bit characters: the code units U+0000 to U+00FF of a
  JavaScript string. On this range the latin-1 codec of iconv-lite is the identity
  on code units and its utf-8 decoder inverts its utf-8 encoder, so a file is
  represented by the text that \<open>decode\<close> yields for it, and a write records the
  encoding it was made with. A buffer of zero bytes is the empty text.
\<close>

datatype PluginFormat = original | fallout4

record ILoadOrder =
  enabled :: bool
  loadOrder :: int

text \<open>
  \<open>PluginMap\<close> is a JavaScript object used as a dictionary. Its own properties are
  kept as an association list in insertion order, which is the order in which
  \<open>Object.keys\<close> enumerates them.
\<close>

type_synonym PluginMap = "(string \<times> ILoadOrder) list"

definition retryCount :: int where
  "retryCount = 3"

datatype encoding = utf8 | latin1

text \<open>
  Everything the class does to the outside world is appended to a trace: file reads and
  writes (directory, file name, and for a write the encoding and the text), log lines,
  timers, watchers, the reset callback, and the settling of the promise that
  \<open>serialize\<close> handed out (\<open>True\<close> when it is fulfilled).
\<close>

datatype effect =
    ReadFile string string
  | WriteFile string string encoding string
  | Log string string
  | SetTimeout nat
  | ClearTimeout
  | Watch string nat
  | WatchClose nat
  | ResetCallback
  | Settled nat bool

text \<open>
  The asynchronous operations that are under way: a \<open>doSerialize\<close> that waits for the
  write of loadorder.txt (holding the \<open>sorted\<close> list of its closure) or of plugins.txt,
  and a \<open>deserialize\<close> that waits for the read of loadorder.txt or of plugins.txt
  (holding the \<open>newPlugins\<close> object of its closure).
\<close>

datatype writeJob = WritingLoadorder "string list" | WritingPlugins

datatype readJob = ReadingLoadorder | ReadingPlugins PluginMap

text \<open>
  The fields of the class, followed by the state of its environment. \<open>undefined\<close> is
  \<open>None\<close>. \<open>mResetCallback\<close> tells whether a callback is registered; the callback is
  taken to return normally. \<open>mWatch\<close> holds the number of the watcher object.
  \<open>mRefreshTimer\<close> is \<open>Some delay\<close> while a timer is pending and \<open>None\<close> when it is
  undefined, null or has fired. \<open>mSerializeQueue\<close> is the promise chain: the numbers of
  the chained \<open>then\<close> callbacks that have not run yet, oldest first, and
  \<open>queueRejected\<close> tells whether the promise they hang on was rejected.
\<close>

record PluginPersistor =
  mPluginPath :: "string option"
  mPluginFormat :: "PluginFormat option"
  mNativePlugins :: "string set option"
  mResetCallback :: bool
  mWatch :: "nat option"
  mRefreshTimer :: "nat option"
  mSerializing :: bool
  mSerializeQueue :: "nat list"
  mPlugins :: PluginMap
  mRetryCounter :: int
  mLoaded :: bool
  queueRejected :: bool
  promises :: nat
  watchers :: nat
  writeJobs :: "(nat \<times> writeJob) list"
  readJobs :: "readJob list"
  effects :: "effect list"

definition constructor :: PluginPersistor where
  "constructor = \<lparr>
     mPluginPath = None, mPluginFormat = None, mNativePlugins = None,
     mResetCallback = False, mWatch = None, mRefreshTimer = None,
     mSerializing = False, mSerializeQueue = [], mPlugins = [],
     mRetryCounter = retryCount, mLoaded = False,
     queueRejected = False, promises = 0, watchers = 0,
     writeJobs = [], readJobs = [], effects = [] \<rparr>"

definition emit :: "effect list \<Rightarrow> PluginPersistor \<Rightarrow> PluginPersistor" where
  "emit es st = st\<lparr>effects := effects st @ es\<rparr>"

section \<open>Strings\<close>

definition CR :: char where "CR = CHR 0x0D"
definition LF :: char where "LF = CHR 0x0A"

text \<open>\<open>String.prototype.toLowerCase\<close> on the code units U+0000 to U+00FF.\<close>

definition lowerChar :: "char \<Rightarrow> char" where
  "lowerChar c =
     (let n = (of_char c :: nat)
      in if (65 \<le> n \<and> n \<le> 90) \<or> (192 \<le> n \<and> n \<le> 222 \<and> n \<noteq> 215)
         then char_of (n + 32) else c)"

definition toLowerCase :: "string \<Rightarrow> string" where
  "toLowerCase s = map lowerChar s"

definition startsWith :: "string \<Rightarrow> char \<Rightarrow> bool" where
  "startsWith s c = (case s of [] \<Rightarrow> False | d # _ \<Rightarrow> d = c)"

text \<open>\<open>Array.prototype.join\<close>.\<close>

fun join :: "string \<Rightarrow> string list \<Rightarrow> string" where
  "join sep [] = []"
| "join sep [x] = x"
| "join sep (x # y # ys) = x @ sep @ join sep (y # ys)"

text \<open>
  \<open>input.split(/\r?\n/)\<close>: a line feed, or a carriage return directly followed by a
  line feed, ends a piece; a carriage return followed by anything else is an ordinary
  character. The empty input gives one empty piece.
\<close>

fun splitLines :: "string \<Rightarrow> string list" where
  "splitLines [] = [[]]"
| "splitLines (c # cs) =
     (if c = LF then [] # splitLines cs
      else if c = CR \<and> startsWith cs LF then [] # splitLines (tl cs)
      else (case splitLines cs of
              [] \<Rightarrow> [[c]]
            | l # ls \<Rightarrow> (c # l) # ls))"

definition header :: string where
  "header = ''# Automatically generated by NMM2'' @ [CR, LF]"

section \<open>Reading: filterFileData and initFromKeyList\<close>

definition filterFileData :: "string \<Rightarrow> bool \<Rightarrow> string list" where
  "filterFileData input plugins =
     filter (\<lambda>v. \<not> startsWith v CHR ''#'' \<and> length v > 0) (splitLines input)"

text \<open>
  \<open>plugins[key]\<close> on an object created by \<open>{}\<close> finds the object's own property or,
  failing that, a property inherited from \<open>Object.prototype\<close>, which is never
  \<open>undefined\<close>. An assignment to \<open>plugins[key].enabled\<close> then lands on the inherited
  object, which is shared by all objects and is not part of this embedding. For the name
  \<open>__proto__\<close> that object is \<open>Object.prototype\<close> itself, and what the assignment
  does to a later lookup of the name \<open>enabled\<close> is not followed here.
\<close>

definition objectPrototypeKeys :: "string list" where
  "objectPrototypeKeys =
     [''constructor'', ''toString'', ''toLocaleString'', ''valueOf'',
      ''hasOwnProperty'', ''isPrototypeOf'', ''propertyIsEnumerable'', ''__proto__'',
      ''__defineGetter__'', ''__defineSetter__'', ''__lookupGetter__'',
      ''__lookupSetter__'']"

datatype property = Own ILoadOrder | Inherited | Undefined

definition getProp :: "PluginMap \<Rightarrow> string \<Rightarrow> property" where
  "getProp plugins key =
     (case map_of plugins key of
        Some e \<Rightarrow> Own e
      | None \<Rightarrow> if key \<in> set objectPrototypeKeys then Inherited else Undefined)"

definition setEnabled :: "PluginMap \<Rightarrow> string \<Rightarrow> bool \<Rightarrow> PluginMap" where
  "setEnabled plugins key b =
     map (\<lambda>(k, e). if k = key then (k, e\<lparr>enabled := b\<rparr>) else (k, e)) plugins"

text \<open>
  The body of the \<open>forEach\<close> in \<open>initFromKeyList\<close>, run over the keys in order with
  the object and \<open>loadOrderPos\<close> as loop state. \<open>None\<close> is the TypeError that
  \<open>this.mNativePlugins.has\<close> raises when the native set is undefined.
\<close>

fun initFromKeyList_forEach ::
  "PluginPersistor \<Rightarrow> bool \<Rightarrow> string list \<Rightarrow> PluginMap \<Rightarrow> int \<Rightarrow> PluginMap option" where
  "initFromKeyList_forEach st en [] plugins loadOrderPos = Some plugins"
| "initFromKeyList_forEach st en (key # keys) plugins loadOrderPos =
     (let keyEnabled = (en \<and> (mPluginFormat st = Some original \<or> startsWith key CHR ''*''));
          key' = (if mPluginFormat st = Some fallout4 \<and> startsWith key CHR ''*''
                  then tl key else key)
      in case mNativePlugins st of
           None \<Rightarrow> None
         | Some native \<Rightarrow>
             if toLowerCase key' \<in> native
             then initFromKeyList_forEach st en keys plugins loadOrderPos
             else (case getProp plugins key' of
                     Own e \<Rightarrow>
                       initFromKeyList_forEach st en keys
                         (setEnabled plugins key' keyEnabled) loadOrderPos
                   | Inherited \<Rightarrow>
                       initFromKeyList_forEach st en keys plugins loadOrderPos
                   | Undefined \<Rightarrow>
                       initFromKeyList_forEach st en keys
                         (plugins @ [(key', \<lparr>enabled = keyEnabled, loadOrder = loadOrderPos\<rparr>)])
                         (loadOrderPos + 1)))"

definition initFromKeyList ::
  "PluginPersistor \<Rightarrow> PluginMap \<Rightarrow> string list \<Rightarrow> bool \<Rightarrow> PluginMap option" where
  "initFromKeyList st plugins keys en =
     initFromKeyList_forEach st en keys plugins (int (length plugins))"

text \<open>The name that \<open>initFromKeyList\<close> takes from a line: in the fallout4 format the line without its marker.\<close>

definition lineName :: "PluginPersistor \<Rightarrow> string \<Rightarrow> string" where
  "lineName st key =
     (if mPluginFormat st = Some fallout4 \<and> startsWith key CHR ''*'' then tl key else key)"

text \<open>
  Whether \<open>initFromKeyList\<close> takes a line as enabled, and the entries it adds for lines
  whose names are all new, numbered from \<open>loadOrderPos\<close>.
\<close>

definition lineEnabled :: "PluginPersistor \<Rightarrow> bool \<Rightarrow> string \<Rightarrow> bool" where
  "lineEnabled st en key =
     (en \<and> (mPluginFormat st = Some original \<or> startsWith key CHR ''*''))"

fun newEntries :: "PluginPersistor \<Rightarrow> bool \<Rightarrow> int \<Rightarrow> string list \<Rightarrow> PluginMap" where
  "newEntries st en loadOrderPos [] = []"
| "newEntries st en loadOrderPos (key # keys) =
     (lineName st key, \<lparr>enabled = lineEnabled st en key, loadOrder = loadOrderPos\<rparr>)
       # newEntries st en (loadOrderPos + 1) keys"

text \<open>
  A name that \<open>filterFileData\<close> gives back as it was written: not empty, not a comment,
  without a line feed. A name that survives a round trip in a format: such a name that
  is not a property name of \<open>Object.prototype\<close> and, in the fallout4 format, does not
  begin with the marker.
\<close>

definition lineOk :: "string \<Rightarrow> bool" where
  "lineOk n = (n \<noteq> [] \<and> \<not> startsWith n CHR ''#'' \<and> LF \<notin> set n)"

definition validName :: "PluginFormat \<Rightarrow> string \<Rightarrow> bool" where
  "validName f n =
     (lineOk n \<and> n \<notin> set objectPrototypeKeys \<and>
      (f = original \<or> \<not> startsWith n CHR ''*''))"

section \<open>Timers and the watcher\<close>

text \<open>
  \<open>clearTimeout\<close> is recorded when it cancels a pending timer; on \<open>undefined\<close>, the
  value of \<open>mRefreshTimer\<close> before the first call, it does nothing.
\<close>

definition scheduleRefresh :: "nat \<Rightarrow> PluginPersistor \<Rightarrow> PluginPersistor" where
  "scheduleRefresh timeout st =
     emit ((if mRefreshTimer st \<noteq> None then [ClearTimeout] else []) @ [SetTimeout timeout])
       (st\<lparr>mRefreshTimer := Some timeout\<rparr>)"

text \<open>\<open>watchOk\<close> tells whether \<open>fs.watch\<close> returns a watcher or raises.\<close>

definition startWatch :: "bool \<Rightarrow> PluginPersistor \<Rightarrow> PluginPersistor" where
  "startWatch watchOk st =
     (let st1 = (case mWatch st of Some w \<Rightarrow> emit [WatchClose w] st | None \<Rightarrow> st)
      in case mPluginPath st1 of
           None \<Rightarrow> st1
         | Some p \<Rightarrow>
             if watchOk
             then emit [Watch p (watchers st1)]
                    (st1\<lparr>mWatch := Some (watchers st1), watchers := watchers st1 + 1\<rparr>)
             else emit [Log ''error'' ''failed to look for plugin changes''] st1)"

text \<open>The callback that \<open>startWatch\<close> passes to \<open>fs.watch\<close>.\<close>

definition watchEvent :: "string \<Rightarrow> PluginPersistor \<Rightarrow> PluginPersistor" where
  "watchEvent fileName st =
     (if mWatch st = None then st
      else if \<not> mSerializing st \<and> fileName \<in> set [''loadorder.txt'', ''plugins.txt'']
      then scheduleRefresh 500 st
      else st)"

section \<open>Reading: deserialize\<close>

text \<open>
  \<open>deserialize\<close> up to its first \<open>readFileAsync\<close>. The rest of the method runs when
  a read completes: \<open>readDone i data\<close> continues the \<open>i\<close>-th pending read with the
  file's text, or with \<open>None\<close> when the read failed.
\<close>

definition deserialize :: "PluginPersistor \<Rightarrow> PluginPersistor" where
  "deserialize st =
     (case mPluginPath st of
        None \<Rightarrow> st
      | Some p \<Rightarrow>
          if mPluginFormat st = Some original
          then emit [ReadFile p ''loadorder.txt'']
                 (st\<lparr>readJobs := readJobs st @ [ReadingLoadorder]\<rparr>)
          else emit [ReadFile p ''plugins.txt'']
                 (st\<lparr>readJobs := readJobs st @ [ReadingPlugins []]\<rparr>))"

definition deserialize_catch :: "PluginPersistor \<Rightarrow> PluginPersistor" where
  "deserialize_catch st =
     (let st1 = emit [Log ''warn'' ''failed to read plugin file''] st
      in if mRetryCounter st1 > 0
         then scheduleRefresh 100 (st1\<lparr>mRetryCounter := mRetryCounter st1 - 1\<rparr>)
         else st1)"

definition deserialize_loaded :: "PluginMap \<Rightarrow> PluginPersistor \<Rightarrow> PluginPersistor" where
  "deserialize_loaded newPlugins st =
     (let st1 = st\<lparr>mPlugins := newPlugins\<rparr>
      in if mResetCallback st1
         then (emit [ResetCallback] (st1\<lparr>mLoaded := True\<rparr>))\<lparr>mRetryCounter := retryCount\<rparr>
         else st1)"

definition dropJob :: "nat \<Rightarrow> 'a list \<Rightarrow> 'a list" where
  "dropJob i js = take i js @ drop (Suc i) js"

definition readDone :: "nat \<Rightarrow> string option \<Rightarrow> PluginPersistor \<Rightarrow> PluginPersistor" where
  "readDone i data st =
     (if length (readJobs st) \<le> i then st
      else
        let st1 = st\<lparr>readJobs := dropJob i (readJobs st)\<rparr>
        in case readJobs st ! i of
             ReadingLoadorder \<Rightarrow>
               (case data of
                  None \<Rightarrow> deserialize_catch st1
                | Some d \<Rightarrow>
                    (case initFromKeyList st [] (filterFileData d False) False of
                       None \<Rightarrow> deserialize_catch st1
                     | Some newPlugins \<Rightarrow>
                         (case mPluginPath st of
                            None \<Rightarrow> deserialize_catch st1
                          | Some p \<Rightarrow>
                              emit [ReadFile p ''plugins.txt'']
                                (st\<lparr>readJobs := (readJobs st)[i := ReadingPlugins newPlugins]\<rparr>))))
           | ReadingPlugins newPlugins \<Rightarrow>
               (case data of
                  None \<Rightarrow> deserialize_catch st1
                | Some d \<Rightarrow>
                    if length d = 0 then deserialize_catch st1
                    else (case initFromKeyList st newPlugins (filterFileData d True) True of
                            None \<Rightarrow> deserialize_catch st1
                          | Some newPlugins' \<Rightarrow> deserialize_loaded newPlugins' st1)))"

definition timerFires :: "PluginPersistor \<Rightarrow> PluginPersistor" where
  "timerFires st =
     (if mRefreshTimer st = None then st
      else deserialize (st\<lparr>mRefreshTimer := None\<rparr>))"

text \<open>
  A whole reload with nothing happening in between: \<open>deserialize\<close> is called and the
  reads it issues complete, loadorder.txt with \<open>lo\<close> (original format only) and
  plugins.txt with \<open>pl\<close>.
\<close>

definition reload :: "string option \<Rightarrow> string option \<Rightarrow> PluginPersistor \<Rightarrow> PluginPersistor" where
  "reload lo pl st =
     (let i = length (readJobs st)
      in if mPluginFormat st = Some original
         then readDone i pl (readDone i lo (deserialize st))
         else readDone i pl (deserialize st))"

section \<open>Binding\<close>

definition loadFiles ::
  "string \<Rightarrow> PluginFormat \<Rightarrow> string set \<Rightarrow> bool \<Rightarrow> PluginPersistor \<Rightarrow> PluginPersistor" where
  "loadFiles path format native watchOk st =
     startWatch watchOk
       (deserialize (st\<lparr>mPluginPath := Some path, mPluginFormat := Some format,
                         mNativePlugins := Some native\<rparr>))"

definition stopSync :: "PluginPersistor \<Rightarrow> PluginPersistor" where
  "stopSync st =
     (let st1 = st\<lparr>mPluginPath := None, mPluginFormat := None, mNativePlugins := None\<rparr>
      in case mWatch st1 of
           Some w \<Rightarrow> (emit [WatchClose w] st1)\<lparr>mWatch := None\<rparr>
         | None \<Rightarrow> st1)"

definition setResetCallback :: "PluginPersistor \<Rightarrow> PluginPersistor" where
  "setResetCallback st = st\<lparr>mResetCallback := True\<rparr>"

section \<open>Writing: toPluginList and doSerialize\<close>

text \<open>
  \<open>this.mPlugins[pluginName].enabled\<close>: a name that is neither an own nor an inherited
  property raises a TypeError (\<open>None\<close>); on an inherited property \<open>enabled\<close> is
  undefined, which \<open>filter\<close> takes as false.
\<close>

fun toPluginListOriginal :: "PluginPersistor \<Rightarrow> string list \<Rightarrow> string list option" where
  "toPluginListOriginal st [] = Some []"
| "toPluginListOriginal st (pluginName # input) =
     (case getProp (mPlugins st) pluginName of
        Undefined \<Rightarrow> None
      | Inherited \<Rightarrow> toPluginListOriginal st input
      | Own e \<Rightarrow>
          (case toPluginListOriginal st input of
             None \<Rightarrow> None
           | Some res \<Rightarrow> Some (if enabled e then pluginName # res else res)))"

text \<open>
  \<open>util.getSafe(this.mPlugins, [name, 'enabled'], false)\<close> of nmm-api: the value at
  the path of own properties, or the fallback where the path does not exist.
\<close>

definition getSafe_enabled :: "PluginMap \<Rightarrow> string \<Rightarrow> bool" where
  "getSafe_enabled plugins name =
     (case map_of plugins name of Some e \<Rightarrow> enabled e | None \<Rightarrow> False)"

definition toPluginListFallout4 :: "PluginPersistor \<Rightarrow> string list \<Rightarrow> string list" where
  "toPluginListFallout4 st input =
     map (\<lambda>name. if getSafe_enabled (mPlugins st) name then CHR ''*'' # name else name) input"

definition toPluginList :: "PluginPersistor \<Rightarrow> string list \<Rightarrow> string list option" where
  "toPluginList st input =
     (if mPluginFormat st = Some original
      then toPluginListOriginal st input
      else Some (toPluginListFallout4 st input))"

definition loadOrderOf :: "PluginMap \<Rightarrow> string \<Rightarrow> int" where
  "loadOrderOf plugins name =
     (case map_of plugins name of Some e \<Rightarrow> loadOrder e | None \<Rightarrow> 0)"

text \<open>
  The list \<open>sorted\<close> of \<open>doSerialize\<close>: the own keys, without the native ones, sorted by
  \<open>loadOrder\<close>. \<open>sort_key\<close> is a stable sort; \<open>Array.prototype.sort\<close> agrees with it
  wherever the \<open>loadOrder\<close> values differ and may order equal values differently.
  \<open>None\<close> is the TypeError of \<open>this.mNativePlugins.has\<close> when the native set is
  undefined and there is a key to test.
\<close>

definition sortedNames :: "PluginPersistor \<Rightarrow> string list option" where
  "sortedNames st =
     (case mNativePlugins st of
        None \<Rightarrow> if mPlugins st = [] then Some [] else None
      | Some native \<Rightarrow>
          Some (sort_key (loadOrderOf (mPlugins st))
                  (filter (\<lambda>pluginName. toLowerCase pluginName \<notin> native)
                     (map fst (mPlugins st)))))"

text \<open>
  \<open>doSerialize\<close> up to its first \<open>writeFileAsync\<close>; \<open>job\<close> numbers the write that
  it starts. The result is \<open>False\<close>, with the state reached, when the method raises.
\<close>

definition doSerialize :: "nat \<Rightarrow> PluginPersistor \<Rightarrow> bool \<times> PluginPersistor" where
  "doSerialize job st =
     (case mPluginPath st of
        None \<Rightarrow> (True, st)
      | Some p \<Rightarrow>
          let st1 = st\<lparr>mSerializing := True\<rparr>
          in case sortedNames st1 of
               None \<Rightarrow> (False, st1)
             | Some sorted' \<Rightarrow>
                 (True, emit [WriteFile p ''loadorder.txt'' utf8 (header @ join [CR, LF] sorted')]
                          (st1\<lparr>writeJobs := writeJobs st1 @ [(job, WritingLoadorder sorted')]\<rparr>)))"

definition doSerialize_catch :: "PluginPersistor \<Rightarrow> PluginPersistor" where
  "doSerialize_catch st = emit [Log ''error'' ''failed to write plugin list''] st"

definition doSerialize_finally :: "PluginPersistor \<Rightarrow> PluginPersistor" where
  "doSerialize_finally st = st\<lparr>mSerializing := False\<rparr>"

text \<open>
  The rest of \<open>doSerialize\<close> runs when a write completes: \<open>writeDone job ok\<close>
  continues write number \<open>job\<close>, \<open>ok\<close> telling whether the file was written.
  After loadorder.txt the \<open>then\<close> callback computes \<open>filtered\<close> from the state of
  that moment and starts the write of plugins.txt; \<open>path.join\<close> raises when the path
  is undefined by then. Every failure ends in the \<open>catch\<close> and the \<open>finally\<close> handlers.
\<close>

definition writeDone :: "nat \<Rightarrow> bool \<Rightarrow> PluginPersistor \<Rightarrow> PluginPersistor" where
  "writeDone job ok st =
     (let st1 = st\<lparr>writeJobs := filter (\<lambda>(j, w). j \<noteq> job) (writeJobs st)\<rparr>
      in case map_of (writeJobs st) job of
           None \<Rightarrow> st
         | Some (WritingLoadorder sorted') \<Rightarrow>
             if ok
             then (case toPluginList st sorted' of
                     None \<Rightarrow> doSerialize_finally (doSerialize_catch st1)
                   | Some filtered \<Rightarrow>
                       (case mPluginPath st of
                          None \<Rightarrow> doSerialize_finally (doSerialize_catch st1)
                        | Some p \<Rightarrow>
                            emit [WriteFile p ''plugins.txt'' latin1 (header @ join [CR, LF] filtered)]
                              (st\<lparr>writeJobs :=
                                    map (\<lambda>(j, w). if j = job then (j, WritingPlugins) else (j, w))
                                      (writeJobs st)\<rparr>)))
             else doSerialize_finally (doSerialize_catch st1)
         | Some WritingPlugins \<Rightarrow>
             doSerialize_finally (if ok then st1 else doSerialize_catch st1))"

text \<open>The line that \<open>toPluginListFallout4\<close> makes of a name.\<close>

definition mark :: "PluginMap \<Rightarrow> string \<Rightarrow> string" where
  "mark m n = (if getSafe_enabled m n then CHR ''*'' # n else n)"

text \<open>
  A whole \<open>doSerialize\<close> with nothing happening in between: the method is called and
  its two writes complete, \<open>ok1\<close> and \<open>ok2\<close> telling whether they succeed.
\<close>

definition writeFiles :: "nat \<Rightarrow> bool \<Rightarrow> bool \<Rightarrow> PluginPersistor \<Rightarrow> PluginPersistor" where
  "writeFiles job ok1 ok2 st =
     writeDone job ok2 (writeDone job ok1 (snd (doSerialize job st)))"

text \<open>
  \<open>serialize\<close> hands out promise number \<open>promises st\<close>. While \<open>mLoaded\<close> is false it
  is \<open>Promise.resolve()\<close>. Otherwise a callback is chained on \<open>mSerializeQueue\<close> and
  the promise is the one of that callback.
\<close>

definition serialize :: "PluginPersistor \<Rightarrow> PluginPersistor" where
  "serialize st =
     (let st1 = st\<lparr>promises := promises st + 1\<rparr>
      in if \<not> mLoaded st
         then emit [Settled (promises st) True] st1
         else st1\<lparr>mSerializeQueue := mSerializeQueue st @ [promises st]\<rparr>)"

text \<open>
  One turn of the promise scheduler: the oldest chained callback
  \<open>() => { this.doSerialize(); }\<close> runs. Its body is a block without \<open>return\<close>, so
  the callback returns \<open>undefined\<close> and its promise is fulfilled as soon as
  \<open>doSerialize\<close> has returned, which makes the next callback ready to run. When the
  callback raises, its promise is rejected, and so is every promise chained on it
  later, without its callback being run.
\<close>

definition tick :: "PluginPersistor \<Rightarrow> PluginPersistor" where
  "tick st =
     (case mSerializeQueue st of
        [] \<Rightarrow> st
      | p # queue \<Rightarrow>
          let st1 = st\<lparr>mSerializeQueue := queue\<rparr>
          in if queueRejected st then emit [Settled p False] st1
             else (case doSerialize p st1 of
                     (True, st2) \<Rightarrow> emit [Settled p True] st2
                   | (False, st2) \<Rightarrow> emit [Settled p False] (st2\<lparr>queueRejected := True\<rparr>)))"

section \<open>The store interface\<close>

fun digits :: "nat \<Rightarrow> string" where
  "digits n = (if n < 10 then [char_of (48 + n)] else digits (n div 10) @ [char_of (48 + n mod 10)])"

definition showNumber :: "int \<Rightarrow> string" where
  "showNumber i = (if i < 0 then CHR ''-'' # digits (nat (- i)) else digits (nat i))"

definition hexDigit :: "nat \<Rightarrow> char" where
  "hexDigit n = (if n < 10 then char_of (48 + n) else char_of (87 + n))"

definition quoteChar :: "char \<Rightarrow> string" where
  "quoteChar c =
     (let n = (of_char c :: nat)
      in if n = 34 then [CHR 0x5C, CHR 0x22]
         else if n = 92 then [CHR 0x5C, CHR 0x5C]
         else if n = 8 then [CHR 0x5C, CHR ''b'']
         else if n = 12 then [CHR 0x5C, CHR ''f'']
         else if n = 10 then [CHR 0x5C, CHR ''n'']
         else if n = 13 then [CHR 0x5C, CHR ''r'']
         else if n = 9 then [CHR 0x5C, CHR ''t'']
         else if n < 32 then [CHR 0x5C, CHR ''u'', CHR ''0'', CHR ''0'', hexDigit (n div 16), hexDigit (n mod 16)]
         else [c])"

definition quote :: "string \<Rightarrow> string" where
  "quote s = [CHR 0x22] @ concat (map quoteChar s) @ [CHR 0x22]"

text \<open>
  \<open>JSON.stringify\<close> of a \<open>PluginMap\<close> whose entries hold \<open>enabled\<close> and \<open>loadOrder\<close>
  in this order, as \<open>initFromKeyList\<close> creates them, for names that are not written
  like an array index (those JavaScript lists first) and numbers that it prints digit by
  digit (below 1e21).
\<close>

definition stringifyEntry :: "string \<times> ILoadOrder \<Rightarrow> string" where
  "stringifyEntry = (\<lambda>(name, e).
     quote name @ '':{'' @ quote ''enabled'' @ '':''
       @ (if enabled e then ''true'' else ''false'') @ '',''
       @ quote ''loadOrder'' @ '':'' @ showNumber (loadOrder e) @ ''}'')"

definition JSON_stringify :: "PluginMap \<Rightarrow> string" where
  "JSON_stringify plugins = ''{'' @ join '','' (map stringifyEntry plugins) @ ''}''"

definition getItem :: "string \<Rightarrow> PluginPersistor \<Rightarrow> string" where
  "getItem key st = JSON_stringify (mPlugins st)"

text \<open>
  \<open>parsed\<close> is what \<open>JSON.parse(value)\<close> gives: \<open>None\<close> when it raises a SyntaxError,
  which the caller receives before anything is changed, and otherwise the object, taken
  to be a \<open>PluginMap\<close>.
\<close>

definition setItem :: "string \<Rightarrow> PluginMap option \<Rightarrow> PluginPersistor \<Rightarrow> PluginPersistor" where
  "setItem key parsed st =
     (case parsed of
        None \<Rightarrow> st
      | Some value \<Rightarrow> serialize (st\<lparr>mPlugins := value\<rparr>))"

definition removeItem :: "string \<Rightarrow> PluginPersistor \<Rightarrow> PluginPersistor" where
  "removeItem key st =
     serialize (st\<lparr>mPlugins := filter (\<lambda>(k, e). k \<noteq> key) (mPlugins st)\<rparr>)"

definition getAllKeys :: "string list" where
  "getAllKeys = [''loadOrder'']"

section \<open>The event loop\<close>

text \<open>
  Node runs the class one event at a time: a call of a public method, a turn of the
  promise scheduler, the completion of a write or of a read, the refresh timer, a
  notification of the watcher. A run is a list of events, each applied to the state the
  previous one left.
\<close>

datatype event =
    SetResetCallback
  | LoadFiles string PluginFormat "string set" bool
  | StopSync
  | SetItem string "PluginMap option"
  | RemoveItem string
  | Tick
  | WriteDone nat bool
  | ReadDone nat "string option"
  | TimerFires
  | WatchEvent string

fun step :: "event \<Rightarrow> PluginPersistor \<Rightarrow> PluginPersistor" where
  "step SetResetCallback st = setResetCallback st"
| "step (LoadFiles path format native watchOk) st = loadFiles path format native watchOk st"
| "step StopSync st = stopSync st"
| "step (SetItem key parsed) st = setItem key parsed st"
| "step (RemoveItem key) st = removeItem key st"
| "step Tick st = tick st"
| "step (WriteDone job ok) st = writeDone job ok st"
| "step (ReadDone i data) st = readDone i data st"
| "step TimerFires st = timerFires st"
| "step (WatchEvent fileName) st = watchEvent fileName st"

definition run :: "event list \<Rightarrow> PluginPersistor \<Rightarrow> PluginPersistor" where
  "run es st = fold step es st"

text \<open>The writes that have been started and have not completed.\<close>

definition inFlight :: "PluginPersistor \<Rightarrow> nat list" where
  "inFlight st = map fst (writeJobs st)"

definition isWrite :: "effect \<Rightarrow> bool" where
  "isWrite e = (case e of WriteFile d n c t \<Rightarrow> True | _ \<Rightarrow> False)"

text \<open>
  Every write in a trace comes after a call of the reset callback; \<open>seen\<close> tells
  whether the callback has been called before the trace begins. And the invariant of
  the event loop that keeps it so: the loaded flag is set exactly when the callback has
  been called, and while it is not set no callback is chained and no write is under way.
\<close>

fun writesFollowReset :: "bool \<Rightarrow> effect list \<Rightarrow> bool" where
  "writesFollowReset seen [] = True"
| "writesFollowReset seen (e # es) =
     (if isWrite e then seen \<and> writesFollowReset seen es
      else writesFollowReset (seen \<or> e = ResetCallback) es)"

definition loadedInvariant :: "PluginPersistor \<Rightarrow> bool" where
  "loadedInvariant st =
     (writesFollowReset False (effects st) \<and>
      mLoaded st = (ResetCallback \<in> set (effects st)) \<and>
      (mLoaded st \<or> (mSerializeQueue st = [] \<and> writeJobs st = [])))"

section \<open>Whole reloads\<close>

text \<open>
  The object \<open>newPlugins\<close> that \<open>deserialize\<close> has built when both of its
  continuations have run to their end; \<open>None\<close> when a read fails, when plugins.txt has
  length zero or when \<open>initFromKeyList\<close> raises, which are the ways into the
  \<open>catch\<close> handler.
\<close>

definition parseLoadorder :: "PluginPersistor \<Rightarrow> string option \<Rightarrow> PluginMap option" where
  "parseLoadorder st lo =
     (if mPluginFormat st = Some original
      then (case lo of
              None \<Rightarrow> None
            | Some d \<Rightarrow> initFromKeyList st [] (filterFileData d False) False)
      else Some [])"

definition parseFiles ::
  "PluginPersistor \<Rightarrow> string option \<Rightarrow> string option \<Rightarrow> PluginMap option" where
  "parseFiles st lo pl =
     (case parseLoadorder st lo of
        None \<Rightarrow> None
      | Some newPlugins \<Rightarrow>
          (case pl of
             None \<Rightarrow> None
           | Some d \<Rightarrow>
               if length d = 0 then None
               else initFromKeyList st newPlugins (filterFileData d True) True))"

text \<open>The names on the lines of the files that a reload reads.\<close>

definition fileNames :: "PluginPersistor \<Rightarrow> string option \<Rightarrow> string option \<Rightarrow> string set" where
  "fileNames st lo pl =
     (if mPluginFormat st = Some original
      then (case lo of None \<Rightarrow> {} | Some d \<Rightarrow> lineName st ` set (filterFileData d False))
      else {})
     \<union> (case pl of None \<Rightarrow> {} | Some d \<Rightarrow> lineName st ` set (filterFileData d True))"

text \<open>The reads that a whole reload issues.\<close>

definition reads :: "PluginPersistor \<Rightarrow> string \<Rightarrow> string option \<Rightarrow> effect list" where
  "reads st p lo =
     (if mPluginFormat st = Some original
      then ReadFile p ''loadorder.txt''
             # (if parseLoadorder st lo = None then [] else [ReadFile p ''plugins.txt''])
      else [ReadFile p ''plugins.txt''])"

text \<open>
  The refresh timer fires and the reload it starts runs to its end: \<open>timerFires\<close>,
  then the completion of the reads it issued. When no timer is pending nothing fires and
  there is no read to complete.
\<close>

definition timerReload ::
  "string option \<Rightarrow> string option \<Rightarrow> PluginPersistor \<Rightarrow> PluginPersistor" where
  "timerReload lo pl st =
     (let i = length (readJobs st)
      in if mPluginFormat st = Some original
         then readDone i pl (readDone i lo (timerFires st))
         else readDone i pl (timerFires st))"

section \<open>Example states\<close>

text \<open>
  A persistor with a reset callback, bound to a Fallout 4 directory, with its first
  read pending; the same after plugins.txt has been read; and a persistor bound to a
  Skyrim directory in the original format.
\<close>

definition boundFallout4 :: PluginPersistor where
  "boundFallout4 =
     loadFiles ''Fallout4'' fallout4 {''fallout4.esm''} True (setResetCallback constructor)"

definition loadedFallout4 :: PluginPersistor where
  "loadedFallout4 =
     readDone 0 (Some (header @ ''*ModX.esp'' @ [CR, LF] @ ''ModY.esp'')) boundFallout4"

definition headerOnly :: PluginPersistor where
  "headerOnly = readDone 0 (Some header) boundFallout4"

text \<open>
  A persistor without a reset callback whose first read fails and whose retry reads
  plugins.txt.
\<close>

definition noCallback :: PluginPersistor where
  "noCallback =
     run [LoadFiles ''Fallout4'' fallout4 {''fallout4.esm''} True,
          ReadDone 0 None,
          TimerFires,
          ReadDone 0 (Some (header @ ''*ModX.esp''))] constructor"

text \<open>
  The loaded Fallout 4 persistor after \<open>setItem\<close> has stored a map that holds a native
  plugin, and a Fallout 4 persistor whose plugins.txt names a plugin \<open>constructor\<close>.
\<close>

definition withNative :: PluginPersistor where
  "withNative =
     setItem ''loadOrder''
       (Some [(''Late.esp'', \<lparr>enabled = False, loadOrder = 7\<rparr>),
              (''Fallout4.esm'', \<lparr>enabled = True, loadOrder = 0\<rparr>),
              (''Early.esp'', \<lparr>enabled = True, loadOrder = 2\<rparr>)])
       loadedFallout4"

definition inheritedName :: PluginPersistor where
  "inheritedName =
     readDone 0 (Some (header @ ''constructor'' @ [CR, LF] @ ''*ModA.esp'')) boundFallout4"

text \<open>
  A persistor bound to a Skyrim directory in the original format, after both files have
  been read and \<open>setItem\<close> has stored a map of two plugins; and the loaded Fallout 4
  persistor after \<open>setItem\<close> has stored a map with a disabled plugin whose name begins
  with \<open>#\<close>.
\<close>

definition skyrim :: PluginPersistor where
  "skyrim =
     run [SetResetCallback,
          LoadFiles ''Skyrim'' original {''skyrim.esm''} True,
          ReadDone 0 (Some (header @ ''ModA.esp'')),
          ReadDone 0 (Some header),
          SetItem ''loadOrder''
            (Some [(''Late.esp'', \<lparr>enabled = True, loadOrder = 7\<rparr>),
                   (''Early.esp'', \<lparr>enabled = False, loadOrder = 2\<rparr>)])]
       constructor"

definition hashName :: PluginPersistor where
  "hashName =
     setItem ''loadOrder''
       (Some [(''#Mod.esp'', \<lparr>enabled = False, loadOrder = 0\<rparr>),
              (''ModB.esp'', \<lparr>enabled = True, loadOrder = 1\<rparr>)])
       loadedFallout4"

text \<open>
  A Fallout 4 persistor with a reset callback whose first read and all three retries
  fail; and the same persistor after it has been unbound and bound to a Skyrim
  directory, where four reads in a row fail, the later three started by the watcher.
\<close>

definition exhausted :: PluginPersistor where
  "exhausted =
     run [SetResetCallback,
          LoadFiles ''Fallout4'' fallout4 {''fallout4.esm''} True,
          ReadDone 0 None,
          TimerFires, ReadDone 0 None,
          TimerFires, ReadDone 0 None,
          TimerFires, ReadDone 0 None] constructor"

definition rebound :: PluginPersistor where
  "rebound =
     run [StopSync,
          LoadFiles ''Skyrim'' original {''skyrim.esm''} True,
          ReadDone 0 None,
          WatchEvent ''plugins.txt'', TimerFires, ReadDone 0 None,
          WatchEvent ''plugins.txt'', TimerFires, ReadDone 0 None,
          WatchEvent ''plugins.txt'', TimerFires, ReadDone 0 None] exhausted"

text \<open>
  A persistor on which \<open>setItem\<close> and \<open>removeItem\<close> are called right after
  \<open>loadFiles\<close>, before the read of plugins.txt has completed. And the loaded Fallout 4
  persistor on which \<open>setItem\<close> and, after the promise scheduler has run, \<open>removeItem\<close>
  are called; first with both serializations started, then with the second write
  completed before the first.
\<close>

definition earlySetItem :: PluginPersistor where
  "earlySetItem =
     run [SetResetCallback,
          LoadFiles ''Fallout4'' fallout4 {''fallout4.esm''} True,
          SetItem ''loadOrder'' (Some [(''ModX.esp'', \<lparr>enabled = True, loadOrder = 0\<rparr>)]),
          Tick,
          RemoveItem ''ModX.esp'',
          Tick] constructor"

definition overlap :: PluginPersistor where
  "overlap =
     run [SetItem ''loadOrder''
            (Some [(''ModX.esp'', \<lparr>enabled = True, loadOrder = 0\<rparr>),
                   (''ModY.esp'', \<lparr>enabled = True, loadOrder = 1\<rparr>)]),
          Tick,
          RemoveItem ''ModY.esp'',
          Tick] loadedFallout4"

definition staleWrite :: PluginPersistor where
  "staleWrite =
     run [WriteDone 1 True, WriteDone 1 True, WriteDone 0 True, WriteDone 0 True] overlap"

section \<open>Basic facts\<close>

lemma emit_simps [simp]:
  "effects (emit es st) = effects st @ es"
  "mPluginPath (emit es st) = mPluginPath st"
  "mPluginFormat (emit es st) = mPluginFormat st"
  "mNativePlugins (emit es st) = mNativePlugins st"
  "mResetCallback (emit es st) = mResetCallback st"
  "mWatch (emit es st) = mWatch st"
  "mRefreshTimer (emit es st) = mRefreshTimer st"
  "mSerializing (emit es st) = mSerializing st"
  "mSerializeQueue (emit es st) = mSerializeQueue st"
  "mPlugins (emit es st) = mPlugins st"
  "mRetryCounter (emit es st) = mRetryCounter st"
  "mLoaded (emit es st) = mLoaded st"
  "queueRejected (emit es st) = queueRejected st"
  "promises (emit es st) = promises st"
  "watchers (emit es st) = watchers st"
  "writeJobs (emit es st) = writeJobs st"
  "readJobs (emit es st) = readJobs st"
  by (simp_all add: emit_def)

lemma dropJob_last [simp]: "dropJob (length xs) (xs @ [x]) = xs"
  by (simp add: dropJob_def)

lemma initFromKeyList_forEach_cong:
  "mPluginFormat st = mPluginFormat st' \<Longrightarrow> mNativePlugins st = mNativePlugins st' \<Longrightarrow>
   initFromKeyList_forEach st en keys plugins pos = initFromKeyList_forEach st' en keys plugins pos"
  by (induction keys arbitrary: plugins pos) (simp_all add: Let_def split: option.splits property.splits)

lemma initFromKeyList_cong:
  "mPluginFormat st = mPluginFormat st' \<Longrightarrow> mNativePlugins st = mNativePlugins st' \<Longrightarrow>
   initFromKeyList st plugins keys en = initFromKeyList st' plugins keys en"
  unfolding initFromKeyList_def by (rule initFromKeyList_forEach_cong)

lemma initFromKeyList_emit [simp]:
  "initFromKeyList (emit es st) = initFromKeyList st"
  by (intro ext initFromKeyList_cong) simp_all

lemma initFromKeyList_readJobs [simp]:
  "initFromKeyList (st\<lparr>readJobs := js\<rparr>) = initFromKeyList st"
  by (intro ext initFromKeyList_cong) simp_all

lemma initFromKeyList_mRefreshTimer [simp]:
  "initFromKeyList (st\<lparr>mRefreshTimer := t\<rparr>) = initFromKeyList st"
  by (intro ext initFromKeyList_cong) simp_all

lemma emit_emit: "emit es (emit es' st) = emit (es' @ es) st"
  by (simp add: emit_def)

lemma emit_readJobs: "emit es (st\<lparr>readJobs := js\<rparr>) = (emit es st)\<lparr>readJobs := js\<rparr>"
  by (simp add: emit_def)

lemma readJobs_same [simp]: "(emit es st)\<lparr>readJobs := readJobs st\<rparr> = emit es st"
  by (simp add: emit_def)

lemma readJobs_scheduleRefresh [simp]: "readJobs (scheduleRefresh t st) = readJobs st"
  by (simp add: scheduleRefresh_def)

lemma readJobs_deserialize_catch [simp]: "readJobs (deserialize_catch st) = readJobs st"
  by (simp add: deserialize_catch_def Let_def)

lemma readDone_out_of_range: "length (readJobs st) \<le> i \<Longrightarrow> readDone i data st = st"
  by (simp add: readDone_def)

lemma readDone_loadorder:
  assumes "readJobs s = js @ [ReadingLoadorder]"
  shows "readDone (length js) data s =
     (case data of
        None \<Rightarrow> deserialize_catch (s\<lparr>readJobs := js\<rparr>)
      | Some d \<Rightarrow>
          (case initFromKeyList s [] (filterFileData d False) False of
             None \<Rightarrow> deserialize_catch (s\<lparr>readJobs := js\<rparr>)
           | Some newPlugins \<Rightarrow>
               (case mPluginPath s of
                  None \<Rightarrow> deserialize_catch (s\<lparr>readJobs := js\<rparr>)
                | Some p \<Rightarrow>
                    emit [ReadFile p ''plugins.txt'']
                      (s\<lparr>readJobs := js @ [ReadingPlugins newPlugins]\<rparr>))))"
  unfolding readDone_def Let_def using assms by (simp split: option.splits)

lemma readDone_plugins:
  assumes "readJobs s = js @ [ReadingPlugins newPlugins]"
  shows "readDone (length js) data s =
     (case data of
        None \<Rightarrow> deserialize_catch (s\<lparr>readJobs := js\<rparr>)
      | Some d \<Rightarrow>
          if length d = 0 then deserialize_catch (s\<lparr>readJobs := js\<rparr>)
          else (case initFromKeyList s newPlugins (filterFileData d True) True of
                  None \<Rightarrow> deserialize_catch (s\<lparr>readJobs := js\<rparr>)
                | Some newPlugins' \<Rightarrow> deserialize_loaded newPlugins' (s\<lparr>readJobs := js\<rparr>)))"
  unfolding readDone_def Let_def using assms by (simp split: option.splits)

lemma reload_eq:
  assumes "mPluginPath st = Some p"
  shows "reload lo pl st =
     (case parseFiles st lo pl of
        Some np \<Rightarrow> deserialize_loaded np (emit (reads st p lo) st)
      | None \<Rightarrow> deserialize_catch (emit (reads st p lo) st))"
proof (cases "mPluginFormat st = Some original")
  case False
  define s where "s = emit [ReadFile p ''plugins.txt''] (st\<lparr>readJobs := readJobs st @ [ReadingPlugins []]\<rparr>)"
  have d: "deserialize st = s"
    using assms False by (simp add: deserialize_def s_def)
  have j: "readJobs s = readJobs st @ [ReadingPlugins []]"
    by (simp add: s_def)
  have b: "s\<lparr>readJobs := readJobs st\<rparr> = emit [ReadFile p ''plugins.txt''] st"
    by (simp add: s_def emit_def)
  have i: "initFromKeyList s = initFromKeyList st"
    by (simp add: s_def)
  show ?thesis
    using False
    by (simp add: reload_def d readDone_plugins [OF j] b i parseFiles_def parseLoadorder_def
        reads_def split: option.splits)
next
  case True
  define s where "s = emit [ReadFile p ''loadorder.txt''] (st\<lparr>readJobs := readJobs st @ [ReadingLoadorder]\<rparr>)"
  have d: "deserialize st = s"
    using assms True by (simp add: deserialize_def s_def)
  have j: "readJobs s = readJobs st @ [ReadingLoadorder]"
    by (simp add: s_def)
  have b: "s\<lparr>readJobs := readJobs st\<rparr> = emit [ReadFile p ''loadorder.txt''] st"
    by (simp add: s_def emit_def)
  have i: "initFromKeyList s = initFromKeyList st"
    by (simp add: s_def)
  have ps: "mPluginPath s = Some p"
    using assms by (simp add: s_def)
  show ?thesis
  proof (cases "parseLoadorder st lo")
    case None
    then have "readDone (length (readJobs st)) lo s = deserialize_catch (emit [ReadFile p ''loadorder.txt''] st)"
      using True by (simp add: readDone_loadorder [OF j] b i parseLoadorder_def split: option.splits)
    then show ?thesis
      using True None
      by (simp add: reload_def d readDone_out_of_range parseFiles_def reads_def)
  next
    case (Some np)
    define s2 where "s2 = emit [ReadFile p ''plugins.txt''] (s\<lparr>readJobs := readJobs st @ [ReadingPlugins np]\<rparr>)"
    have r1: "readDone (length (readJobs st)) lo s = s2"
      using True Some ps
      by (auto simp add: readDone_loadorder [OF j] i parseLoadorder_def s2_def split: option.splits)
    have j2: "readJobs s2 = readJobs st @ [ReadingPlugins np]"
      by (simp add: s2_def)
    have rd: "reads st p lo = [ReadFile p ''loadorder.txt'', ReadFile p ''plugins.txt'']"
      using True Some by (simp add: reads_def)
    have b2: "s2\<lparr>readJobs := readJobs st\<rparr> = emit (reads st p lo) st"
      unfolding rd by (simp add: s2_def s_def emit_def)
    have i2: "initFromKeyList s2 = initFromKeyList st"
      by (simp add: s2_def s_def)
    have "reload lo pl st = readDone (length (readJobs st)) pl s2"
      using True by (simp add: reload_def d r1)
    also have "\<dots> = (case pl of
        None \<Rightarrow> deserialize_catch (emit (reads st p lo) st)
      | Some d \<Rightarrow>
          if length d = 0 then deserialize_catch (emit (reads st p lo) st)
          else (case initFromKeyList st np (filterFileData d True) True of
                  None \<Rightarrow> deserialize_catch (emit (reads st p lo) st)
                | Some newPlugins' \<Rightarrow> deserialize_loaded newPlugins' (emit (reads st p lo) st)))"
      unfolding readDone_plugins [OF j2] b2 i2 ..
    also have "\<dots> = (case parseFiles st lo pl of
        Some np \<Rightarrow> deserialize_loaded np (emit (reads st p lo) st)
      | None \<Rightarrow> deserialize_catch (emit (reads st p lo) st))"
      unfolding parseFiles_def Some by (simp split: option.splits)
    finally show ?thesis .
  qed
qed


lemma scheduleRefresh_fields [simp]:
  "mRefreshTimer (scheduleRefresh t st) = Some t"
  "mPlugins (scheduleRefresh t st) = mPlugins st"
  "mRetryCounter (scheduleRefresh t st) = mRetryCounter st"
  "mLoaded (scheduleRefresh t st) = mLoaded st"
  "mPluginPath (scheduleRefresh t st) = mPluginPath st"
  "mPluginFormat (scheduleRefresh t st) = mPluginFormat st"
  "mNativePlugins (scheduleRefresh t st) = mNativePlugins st"
  "mResetCallback (scheduleRefresh t st) = mResetCallback st"
  "effects (scheduleRefresh t st) =
     effects st @ (if mRefreshTimer st \<noteq> None then [ClearTimeout] else []) @ [SetTimeout t]"
  by (simp_all add: scheduleRefresh_def)

lemma deserialize_catch_fields:
  "mPlugins (deserialize_catch st) = mPlugins st"
  "mLoaded (deserialize_catch st) = mLoaded st"
  "mPluginPath (deserialize_catch st) = mPluginPath st"
  "mPluginFormat (deserialize_catch st) = mPluginFormat st"
  "mNativePlugins (deserialize_catch st) = mNativePlugins st"
  "mResetCallback (deserialize_catch st) = mResetCallback st"
  "mRetryCounter (deserialize_catch st) =
     (if 0 < mRetryCounter st then mRetryCounter st - 1 else mRetryCounter st)"
  "mRefreshTimer (deserialize_catch st) =
     (if 0 < mRetryCounter st then Some 100 else mRefreshTimer st)"
  "count_list (effects (deserialize_catch st)) (SetTimeout 100) =
     count_list (effects st) (SetTimeout 100) + (if 0 < mRetryCounter st then 1 else 0)"
  by (simp_all add: deserialize_catch_def Let_def)

lemma deserialize_loaded_fields:
  "mPlugins (deserialize_loaded np st) = np"
  "mPluginPath (deserialize_loaded np st) = mPluginPath st"
  "mRefreshTimer (deserialize_loaded np st) = mRefreshTimer st"
  "mLoaded (deserialize_loaded np st) = (mResetCallback st \<or> mLoaded st)"
  "mRetryCounter (deserialize_loaded np st) =
     (if mResetCallback st then retryCount else mRetryCounter st)"
  "effects (deserialize_loaded np st) =
     effects st @ (if mResetCallback st then [ResetCallback] else [])"
  by (simp_all add: deserialize_loaded_def Let_def)

lemma reload_unbound: "mPluginPath st = None \<Longrightarrow> reload lo pl st = st"
  by (simp add: reload_def deserialize_def readDone_out_of_range Let_def)

lemma parseFiles_empty: "parseFiles st lo (Some []) = parseFiles st lo None"
  by (simp add: parseFiles_def split: option.splits)

lemma parseLoadorder_cong:
  "mPluginFormat st = mPluginFormat st' \<Longrightarrow> mNativePlugins st = mNativePlugins st' \<Longrightarrow>
   parseLoadorder st lo = parseLoadorder st' lo"
  unfolding parseLoadorder_def
  by (simp add: initFromKeyList_cong [of st st'] split: option.splits)

lemma parseFiles_cong:
  "mPluginFormat st = mPluginFormat st' \<Longrightarrow> mNativePlugins st = mNativePlugins st' \<Longrightarrow>
   parseFiles st lo pl = parseFiles st' lo pl"
  unfolding parseFiles_def
  by (simp add: parseLoadorder_cong [of st st'] initFromKeyList_cong [of st st']
      split: option.splits)

lemma count_list_reads [simp]:
  "count_list (reads st p lo) (SetTimeout n) = 0"
  "count_list (reads st p lo) (Log l m) = 0"
  "count_list (reads st p lo) ResetCallback = 0"
  by (simp_all add: reads_def)

lemma failed_reload:
  assumes "mPluginPath st = Some p" "parseFiles st lo pl = None"
  shows "reload lo pl st = deserialize_catch (emit (reads st p lo) st)"
  using assms by (simp add: reload_eq)

lemma failed_reload_fields:
  assumes "mPluginPath st = Some p" "parseFiles st lo pl = None"
  shows "mPluginPath (reload lo pl st) = Some p"
    and "mPluginFormat (reload lo pl st) = mPluginFormat st"
    and "mNativePlugins (reload lo pl st) = mNativePlugins st"
    and "mPlugins (reload lo pl st) = mPlugins st"
    and "mRetryCounter (reload lo pl st) =
           (if 0 < mRetryCounter st then mRetryCounter st - 1 else mRetryCounter st)"
    and "mRefreshTimer (reload lo pl st) =
           (if 0 < mRetryCounter st then Some 100 else mRefreshTimer st)"
    and "count_list (effects (reload lo pl st)) (SetTimeout 100) =
           count_list (effects st) (SetTimeout 100) + (if 0 < mRetryCounter st then 1 else 0)"
  using assms
  by (simp_all add: failed_reload [OF assms] deserialize_catch_fields)

lemma timerReload_eq:
  "timerReload lo pl st =
     (if mRefreshTimer st = None then st else reload lo pl (st\<lparr>mRefreshTimer := None\<rparr>))"
proof (cases "mRefreshTimer st = None")
  case True
  then show ?thesis
    by (simp add: timerReload_def timerFires_def readDone_out_of_range Let_def)
next
  case False
  then show ?thesis
    by (auto simp add: timerReload_def timerFires_def reload_def Let_def)
qed

lemma failed_timerReload_fields:
  assumes "mPluginPath st = Some p" "parseFiles st lo pl = None" "mRefreshTimer st \<noteq> None"
  shows "mPluginPath (timerReload lo pl st) = Some p"
    and "mPluginFormat (timerReload lo pl st) = mPluginFormat st"
    and "mNativePlugins (timerReload lo pl st) = mNativePlugins st"
    and "mPlugins (timerReload lo pl st) = mPlugins st"
    and "mRetryCounter (timerReload lo pl st) =
           (if 0 < mRetryCounter st then mRetryCounter st - 1 else mRetryCounter st)"
    and "mRefreshTimer (timerReload lo pl st) =
           (if 0 < mRetryCounter st then Some 100 else None)"
    and "count_list (effects (timerReload lo pl st)) (SetTimeout 100) =
           count_list (effects st) (SetTimeout 100) + (if 0 < mRetryCounter st then 1 else 0)"
proof -
  let ?s = "st\<lparr>mRefreshTimer := None\<rparr>"
  have t: "timerReload lo pl st = reload lo pl ?s"
    using assms(3) by (auto simp add: timerReload_eq)
  have p: "mPluginPath ?s = Some p"
    using assms(1) by simp
  have f: "parseFiles ?s lo pl = None"
    using assms(2) parseFiles_cong [of ?s st lo pl] by simp
  note r = failed_reload_fields [OF p f]
  show "mPluginPath (timerReload lo pl st) = Some p"
    and "mPluginFormat (timerReload lo pl st) = mPluginFormat st"
    and "mNativePlugins (timerReload lo pl st) = mNativePlugins st"
    and "mPlugins (timerReload lo pl st) = mPlugins st"
    and "mRetryCounter (timerReload lo pl st) =
           (if 0 < mRetryCounter st then mRetryCounter st - 1 else mRetryCounter st)"
    and "mRefreshTimer (timerReload lo pl st) =
           (if 0 < mRetryCounter st then Some 100 else None)"
    and "count_list (effects (timerReload lo pl st)) (SetTimeout 100) =
           count_list (effects st) (SetTimeout 100) + (if 0 < mRetryCounter st then 1 else 0)"
    unfolding t using r by simp_all
qed

lemma toPluginListOriginal_cong:
  "mPlugins st = mPlugins st' \<Longrightarrow> toPluginListOriginal st input = toPluginListOriginal st' input"
  by (induction input) (simp_all split: property.splits option.splits)

lemma toPluginList_cong:
  "mPlugins st = mPlugins st' \<Longrightarrow> mPluginFormat st = mPluginFormat st' \<Longrightarrow>
   toPluginList st input = toPluginList st' input"
  unfolding toPluginList_def toPluginListFallout4_def
  by (simp add: toPluginListOriginal_cong [of st st'])

lemma sortedNames_cong:
  "mPlugins st = mPlugins st' \<Longrightarrow> mNativePlugins st = mNativePlugins st' \<Longrightarrow>
   sortedNames st = sortedNames st'"
  by (auto simp add: sortedNames_def split: option.splits)

lemma map_of_fresh_append:
  "map_of js job = None \<Longrightarrow> map_of (js @ [(job, w)]) job = Some w"
  by (simp add: map_add_def)

lemma filter_fresh_job:
  "map_of js job = None \<Longrightarrow> filter (\<lambda>(j, w). j \<noteq> job) js = js"
  by (induction js) (auto split: if_splits)

lemma map_fresh_job:
  "map_of js job = None \<Longrightarrow> map (\<lambda>(j, w). if j = job then (j, v) else (j, w)) js = js"
  by (induction js) (auto split: if_splits)

lemma doSerialize_bound:
  assumes "mPluginPath st = Some p" and "sortedNames st = Some srt"
  shows "doSerialize job st =
     (True, emit [WriteFile p ''loadorder.txt'' utf8 (header @ join [CR, LF] srt)]
              (st\<lparr>mSerializing := True, writeJobs := writeJobs st @ [(job, WritingLoadorder srt)]\<rparr>))"
proof -
  have "sortedNames (st\<lparr>mSerializing := True\<rparr>) = Some srt"
    using assms(2) sortedNames_cong [of "st\<lparr>mSerializing := True\<rparr>" st] by simp
  then show ?thesis
    using assms(1) by (simp add: doSerialize_def)
qed

lemma writeDone_loadorder:
  assumes "writeJobs s = js @ [(job, WritingLoadorder srt)]" and "map_of js job = None"
    and "toPluginList s srt = Some filtered" and "mPluginPath s = Some p"
  shows "writeDone job True s =
     emit [WriteFile p ''plugins.txt'' latin1 (header @ join [CR, LF] filtered)]
       (s\<lparr>writeJobs := js @ [(job, WritingPlugins)]\<rparr>)"
  using assms
  by (simp add: writeDone_def Let_def map_of_fresh_append map_fresh_job del: map_of_append)

lemma writeDone_plugins:
  assumes "writeJobs s = js @ [(job, WritingPlugins)]" and "map_of js job = None"
  shows "writeDone job True s = s\<lparr>writeJobs := js, mSerializing := False\<rparr>"
  using assms
  by (simp add: writeDone_def Let_def map_of_fresh_append filter_fresh_job doSerialize_finally_def
      del: map_of_append)

lemma writeFiles_bound:
  assumes "mPluginPath st = Some p" and "sortedNames st = Some srt"
    and "toPluginList st srt = Some filtered" and "map_of (writeJobs st) job = None"
  shows "writeFiles job True True st =
     st\<lparr>mSerializing := False,
        effects := effects st @
          [WriteFile p ''loadorder.txt'' utf8 (header @ join [CR, LF] srt),
           WriteFile p ''plugins.txt'' latin1 (header @ join [CR, LF] filtered)]\<rparr>"
proof -
  define s1 where "s1 = emit [WriteFile p ''loadorder.txt'' utf8 (header @ join [CR, LF] srt)]
              (st\<lparr>mSerializing := True, writeJobs := writeJobs st @ [(job, WritingLoadorder srt)]\<rparr>)"
  define s2 where "s2 = emit [WriteFile p ''plugins.txt'' latin1 (header @ join [CR, LF] filtered)]
       (s1\<lparr>writeJobs := writeJobs st @ [(job, WritingPlugins)]\<rparr>)"
  have d: "snd (doSerialize job st) = s1"
    by (simp add: doSerialize_bound [OF assms(1,2)] s1_def)
  have j1: "writeJobs s1 = writeJobs st @ [(job, WritingLoadorder srt)]"
    by (simp add: s1_def)
  have t1: "toPluginList s1 srt = Some filtered"
    using assms(3) toPluginList_cong [of s1 st srt] by (simp add: s1_def)
  have p1: "mPluginPath s1 = Some p"
    using assms(1) by (simp add: s1_def)
  have w1: "writeDone job True s1 = s2"
    unfolding s2_def by (rule writeDone_loadorder [OF j1 assms(4) t1 p1])
  have j2: "writeJobs s2 = writeJobs st @ [(job, WritingPlugins)]"
    by (simp add: s2_def)
  have w2: "writeDone job True s2 = s2\<lparr>writeJobs := writeJobs st, mSerializing := False\<rparr>"
    by (rule writeDone_plugins [OF j2 assms(4)])
  show ?thesis
    unfolding writeFiles_def d w1 w2
    by (simp add: s2_def s1_def emit_def)
qed


lemma sortedNames_bound:
  "mNativePlugins st = Some native \<Longrightarrow>
   sortedNames st = Some (sort_key (loadOrderOf (mPlugins st))
      (filter (\<lambda>pluginName. toLowerCase pluginName \<notin> native) (map fst (mPlugins st))))"
  by (simp add: sortedNames_def)

lemma sortedNames_set:
  "mNativePlugins st = Some native \<Longrightarrow> sortedNames st = Some srt \<Longrightarrow>
   set srt = {n \<in> fst ` set (mPlugins st). toLowerCase n \<notin> native}"
  by (force simp add: sortedNames_def)

lemma sortedNames_sorted:
  "sortedNames st = Some srt \<Longrightarrow> sorted (map (loadOrderOf (mPlugins st)) srt)"
  by (auto simp add: sortedNames_def split: option.splits if_splits)

lemma sortedNames_distinct:
  "sortedNames st = Some srt \<Longrightarrow> distinct (map fst (mPlugins st)) \<Longrightarrow> distinct srt"
  by (auto simp add: sortedNames_def split: option.splits if_splits)

lemma toPluginListOriginal_subset:
  "toPluginListOriginal st input = Some filtered \<Longrightarrow> set filtered \<subseteq> set input"
  by (induction input arbitrary: filtered)
    (auto split: property.splits option.splits if_splits)

lemma toPluginList_lines:
  assumes "toPluginList st input = Some filtered" and "line \<in> set filtered"
  shows "\<exists>n \<in> set input. line = n \<or> line = CHR ''*'' # n"
proof (cases "mPluginFormat st = Some original")
  case True
  then have "set filtered \<subseteq> set input"
    using assms(1) by (simp add: toPluginList_def toPluginListOriginal_subset)
  then show ?thesis using assms(2) by auto
next
  case False
  then have "filtered = toPluginListFallout4 st input"
    using assms(1) by (simp add: toPluginList_def)
  then show ?thesis using assms(2) by (auto simp add: toPluginListFallout4_def)
qed

lemma setEnabled_keys [simp]: "map fst (setEnabled plugins key b) = map fst plugins"
  by (induction plugins) (auto simp add: setEnabled_def)

lemma getProp_Own: "getProp plugins key = Own e \<Longrightarrow> key \<in> fst ` set plugins"
  by (auto simp add: getProp_def split: option.splits if_splits dest: map_of_SomeD intro: rev_image_eqI)

lemma getProp_Inherited:
  "getProp plugins key = Inherited \<Longrightarrow> key \<notin> fst ` set plugins \<and> key \<in> set objectPrototypeKeys"
  by (auto simp add: getProp_def map_of_eq_None_iff split: option.splits if_splits)

lemma getProp_Undefined:
  "getProp plugins key = Undefined \<Longrightarrow> key \<notin> fst ` set plugins \<and> key \<notin> set objectPrototypeKeys"
  by (auto simp add: getProp_def map_of_eq_None_iff split: option.splits if_splits)

lemma set_setEnabled_keys [simp]: "fst ` set (setEnabled plugins key b) = fst ` set plugins"
  using setEnabled_keys [of plugins key b] by (metis set_map)

lemma forEach_keys:
  assumes "mNativePlugins st = Some native"
    and "initFromKeyList_forEach st en keys plugins pos = Some newPlugins"
  shows "fst ` set newPlugins =
     fst ` set plugins \<union>
     {n \<in> lineName st ` set keys. toLowerCase n \<notin> native \<and> n \<notin> set objectPrototypeKeys}"
  using assms(2)
proof (induction keys arbitrary: plugins pos)
  case Nil
  then show ?case by simp
next
  case (Cons key keys)
  let ?k = "lineName st key"
  show ?case
  proof (cases "toLowerCase ?k \<in> native")
    case True
    then have "initFromKeyList_forEach st en keys plugins pos = Some newPlugins"
      using Cons.prems assms(1) by (simp add: lineName_def Let_def)
    from Cons.IH [OF this] True show ?thesis by auto
  next
    case False
    show ?thesis
    proof (cases "getProp plugins ?k")
      case (Own e)
      then have "initFromKeyList_forEach st en keys
          (setEnabled plugins ?k (en \<and> (mPluginFormat st = Some original \<or> startsWith key CHR ''*''))) pos
          = Some newPlugins"
        using Cons.prems assms(1) False by (simp add: lineName_def Let_def)
      from Cons.IH [OF this] getProp_Own [OF Own] show ?thesis by auto
    next
      case Inherited
      then have "initFromKeyList_forEach st en keys plugins pos = Some newPlugins"
        using Cons.prems assms(1) False by (simp add: lineName_def Let_def)
      from Cons.IH [OF this] getProp_Inherited [OF Inherited] show ?thesis by auto
    next
      case Undefined
      then have "initFromKeyList_forEach st en keys
          (plugins @ [(?k, \<lparr>enabled = (en \<and> (mPluginFormat st = Some original \<or> startsWith key CHR ''*'')),
                            loadOrder = pos\<rparr>)]) (pos + 1)
          = Some newPlugins"
        using Cons.prems assms(1) False by (simp add: lineName_def Let_def)
      from Cons.IH [OF this] getProp_Undefined [OF Undefined] False show ?thesis by auto
    qed
  qed
qed

lemma initFromKeyList_keys:
  assumes "mNativePlugins st = Some native"
    and "initFromKeyList st plugins keys en = Some newPlugins"
  shows "fst ` set newPlugins =
     fst ` set plugins \<union>
     {n \<in> lineName st ` set keys. toLowerCase n \<notin> native \<and> n \<notin> set objectPrototypeKeys}"
  using assms forEach_keys unfolding initFromKeyList_def by blast

lemma parseFiles_keys:
  assumes "mNativePlugins st = Some native" and "parseFiles st lo pl = Some newPlugins"
  shows "fst ` set newPlugins =
     {n \<in> fileNames st lo pl. toLowerCase n \<notin> native \<and> n \<notin> set objectPrototypeKeys}"
proof -
  obtain np0 d where l: "parseLoadorder st lo = Some np0" and pl: "pl = Some d"
    and i: "initFromKeyList st np0 (filterFileData d True) True = Some newPlugins"
    using assms(2) by (auto simp add: parseFiles_def split: option.splits if_splits)
  have k0: "fst ` set np0 =
     {n \<in> (if mPluginFormat st = Some original
      then (case lo of None \<Rightarrow> {} | Some d \<Rightarrow> lineName st ` set (filterFileData d False))
      else {}). toLowerCase n \<notin> native \<and> n \<notin> set objectPrototypeKeys}"
  proof (cases "mPluginFormat st = Some original")
    case True
    then obtain d0 where "lo = Some d0"
      and "initFromKeyList st [] (filterFileData d0 False) False = Some np0"
      using l by (auto simp add: parseLoadorder_def split: option.splits)
    then show ?thesis
      using initFromKeyList_keys [OF assms(1), of "[]" "filterFileData d0 False" False np0] True
      by simp
  next
    case False
    then show ?thesis using l by (simp add: parseLoadorder_def)
  qed
  show ?thesis
    using initFromKeyList_keys [OF assms(1) i] k0 pl
    by (auto simp add: fileNames_def)
qed

lemma reload_keys:
  assumes "mPluginPath st = Some p" and "mNativePlugins st = Some native"
    and "parseFiles st lo pl \<noteq> None"
  shows "fst ` set (mPlugins (reload lo pl st)) =
     {n \<in> fileNames st lo pl. toLowerCase n \<notin> native \<and> n \<notin> set objectPrototypeKeys}"
proof -
  obtain np where np: "parseFiles st lo pl = Some np"
    using assms(3) by auto
  have "mPlugins (reload lo pl st) = np"
    by (simp add: reload_eq [OF assms(1)] np deserialize_loaded_fields)
  then show ?thesis
    using parseFiles_keys [OF assms(2) np] by simp
qed

lemma parseFiles_from_scratch:
  "parseFiles (st\<lparr>mPlugins := m\<rparr>) lo pl = parseFiles st lo pl"
  by (rule parseFiles_cong) simp_all

lemma CR_neq_LF [simp]: "CR \<noteq> LF" "LF \<noteq> CR"
  by (simp_all add: CR_def LF_def)

lemma splitLines_single: "LF \<notin> set l \<Longrightarrow> splitLines l = [l]"
proof (induction l)
  case Nil
  then show ?case by simp
next
  case (Cons c l)
  then have "\<not> startsWith l LF"
    by (cases l) (auto simp add: startsWith_def)
  then show ?case using Cons by auto
qed

lemma splitLines_line:
  "LF \<notin> set l \<Longrightarrow> splitLines (l @ CR # LF # rest) = l # splitLines rest"
proof (induction l)
  case Nil
  then show ?case by (simp add: startsWith_def)
next
  case (Cons c l)
  then have "\<not> startsWith (l @ CR # LF # rest) LF"
    by (cases l) (auto simp add: startsWith_def)
  then show ?case using Cons by auto
qed

lemma join_Cons: "join sep (x # xs) = (if xs = [] then x else x @ sep @ join sep xs)"
  by (cases xs) simp_all

lemma splitLines_join:
  "\<forall>n \<in> set names. LF \<notin> set n \<Longrightarrow> names \<noteq> [] \<Longrightarrow>
   splitLines (join [CR, LF] names) = names"
proof (induction names)
  case Nil
  then show ?case by simp
next
  case (Cons x xs)
  show ?case
  proof (cases "xs = []")
    case True
    then show ?thesis using Cons.prems by (simp add: splitLines_single)
  next
    case False
    then have "splitLines (join [CR, LF] xs) = xs"
      using Cons by simp
    then show ?thesis
      using False Cons.prems by (simp add: join_Cons splitLines_line)
  qed
qed

lemma filterFileData_rendered:
  assumes "\<forall>n \<in> set names. lineOk n"
  shows "filterFileData (header @ join [CR, LF] names) b = names"
proof -
  let ?h = "''# Automatically generated by NMM2''"
  have h: "header @ join [CR, LF] names = ?h @ CR # LF # join [CR, LF] names"
    by (simp add: header_def)
  have "LF \<notin> set ?h"
    by (simp add: LF_def)
  then have s: "splitLines (header @ join [CR, LF] names) = ?h # splitLines (join [CR, LF] names)"
    unfolding h by (rule splitLines_line)
  have keep: "filter (\<lambda>v. \<not> startsWith v CHR ''#'' \<and> length v > 0) names = names"
    using assms by (auto simp add: lineOk_def filter_id_conv)
  show ?thesis
  proof (cases "names = []")
    case True
    then show ?thesis
      unfolding filterFileData_def s by (simp add: startsWith_def)
  next
    case False
    have "splitLines (join [CR, LF] names) = names"
      using assms False by (intro splitLines_join) (auto simp add: lineOk_def)
    then show ?thesis
      unfolding filterFileData_def s using keep by (simp add: startsWith_def)
  qed
qed

lemma forEach_fresh:
  assumes "mNativePlugins st = Some native"
  shows "distinct (map (lineName st) keys) \<Longrightarrow>
     \<forall>key \<in> set keys. toLowerCase (lineName st key) \<notin> native \<and>
        lineName st key \<notin> set objectPrototypeKeys \<and> lineName st key \<notin> fst ` set plugins \<Longrightarrow>
     initFromKeyList_forEach st en keys plugins pos = Some (plugins @ newEntries st en pos keys)"
proof (induction keys arbitrary: plugins pos)
  case Nil
  then show ?case by simp
next
  case (Cons key keys)
  let ?k = "lineName st key"
  let ?e = "(?k, \<lparr>enabled = lineEnabled st en key, loadOrder = pos\<rparr>)"
  have u: "getProp plugins ?k = Undefined"
    using Cons.prems(2) by (auto simp add: getProp_def map_of_eq_None_iff split: option.splits)
  have step: "initFromKeyList_forEach st en (key # keys) plugins pos =
      initFromKeyList_forEach st en keys (plugins @ [?e]) (pos + 1)"
    using assms Cons.prems(2) u
    by (simp add: Let_def lineName_def lineEnabled_def)
  have "initFromKeyList_forEach st en keys (plugins @ [?e]) (pos + 1) =
      Some ((plugins @ [?e]) @ newEntries st en (pos + 1) keys)"
  proof (intro Cons.IH)
    show "distinct (map (lineName st) keys)"
      using Cons.prems(1) by simp
    show "\<forall>key' \<in> set keys. toLowerCase (lineName st key') \<notin> native \<and>
        lineName st key' \<notin> set objectPrototypeKeys \<and>
        lineName st key' \<notin> fst ` set (plugins @ [?e])"
    proof
      fix key'
      assume m: "key' \<in> set keys"
      then have "lineName st key' \<noteq> lineName st key"
        using Cons.prems(1) by (metis distinct.simps(2) image_eqI list.simps(9) set_map)
      then show "toLowerCase (lineName st key') \<notin> native \<and>
        lineName st key' \<notin> set objectPrototypeKeys \<and>
        lineName st key' \<notin> fst ` set (plugins @ [?e])"
        using Cons.prems(2) m by auto
    qed
  qed
  then show ?case
    unfolding step by simp
qed

lemma newEntries_keys [simp]:
  "map fst (newEntries st en pos keys) = map (lineName st) keys"
  by (induction keys arbitrary: pos) simp_all

lemma newEntries_length [simp]: "length (newEntries st en pos keys) = length keys"
  by (induction keys arbitrary: pos) simp_all

lemma newEntries_nth:
  "i < length keys \<Longrightarrow>
   newEntries st en pos keys ! i =
     (lineName st (keys ! i), \<lparr>enabled = lineEnabled st en (keys ! i), loadOrder = pos + int i\<rparr>)"
proof (induction keys arbitrary: pos i)
  case Nil
  then show ?case by simp
next
  case (Cons key keys)
  then show ?case by (cases i) simp_all
qed

lemma map_of_nth:
  "distinct (map fst xs) \<Longrightarrow> i < length xs \<Longrightarrow> map_of xs (fst (xs ! i)) = Some (snd (xs ! i))"
  by (simp add: map_of_is_SomeI nth_mem)

lemma newEntries_lookup:
  assumes "distinct (map (lineName st) keys)" and "i < length keys"
  shows "map_of (newEntries st en pos keys) (lineName st (keys ! i)) =
     Some \<lparr>enabled = lineEnabled st en (keys ! i), loadOrder = pos + int i\<rparr>"
proof -
  have d: "distinct (map fst (newEntries st en pos keys))"
    using assms(1) by simp
  have l: "i < length (newEntries st en pos keys)"
    using assms(2) by simp
  show ?thesis
    using map_of_nth [OF d l] by (simp add: newEntries_nth [OF assms(2)])
qed

lemma map_of_setEnabled:
  "map_of (setEnabled plugins key b) n =
     (if n = key then map_option (\<lambda>e. e\<lparr>enabled := b\<rparr>) (map_of plugins n) else map_of plugins n)"
  by (induction plugins) (auto simp add: setEnabled_def)

lemma setEnabled_loadOrderOf [simp]:
  "loadOrderOf (setEnabled plugins key b) n = loadOrderOf plugins n"
  by (simp add: loadOrderOf_def map_of_setEnabled split: option.splits)

lemma forEach_existing:
  assumes "mNativePlugins st = Some native" and "mPluginFormat st = Some original"
  shows "\<forall>key \<in> set keys. toLowerCase key \<notin> native \<and> key \<in> fst ` set plugins \<Longrightarrow>
     \<exists>np. initFromKeyList_forEach st True keys plugins pos = Some np \<and>
          map fst np = map fst plugins \<and>
          (\<forall>n. loadOrderOf np n = loadOrderOf plugins n) \<and>
          (\<forall>n. getSafe_enabled np n = (n \<in> set keys \<or> getSafe_enabled plugins n))"
proof (induction keys arbitrary: plugins)
  case Nil
  then show ?case by simp
next
  case (Cons key keys)
  obtain e where e: "map_of plugins key = Some e"
    using Cons.prems by (cases "map_of plugins key") (auto simp add: map_of_eq_None_iff)
  then have o: "getProp plugins key = Own e"
    by (simp add: getProp_def)
  let ?p = "setEnabled plugins key True"
  have step: "initFromKeyList_forEach st True (key # keys) plugins pos =
      initFromKeyList_forEach st True keys ?p pos"
    using assms Cons.prems o by (simp add: Let_def)
  have "\<forall>k \<in> set keys. toLowerCase k \<notin> native \<and> k \<in> fst ` set ?p"
    using Cons.prems by simp
  from Cons.IH [OF this] obtain np where
    r: "initFromKeyList_forEach st True keys ?p pos = Some np"
    and k: "map fst np = map fst ?p"
    and l: "\<forall>n. loadOrderOf np n = loadOrderOf ?p n"
    and en: "\<forall>n. getSafe_enabled np n = (n \<in> set keys \<or> getSafe_enabled ?p n)"
    by blast
  have "\<forall>n. getSafe_enabled ?p n = (n = key \<or> getSafe_enabled plugins n)"
    using e by (auto simp add: getSafe_enabled_def map_of_setEnabled split: option.splits)
  then show ?case
    unfolding step using r k l en by auto
qed

lemma toPluginListOriginal_own:
  "\<forall>n \<in> set input. n \<in> fst ` set (mPlugins st) \<Longrightarrow>
   toPluginListOriginal st input = Some (filter (getSafe_enabled (mPlugins st)) input)"
proof (induction input)
  case Nil
  then show ?case by simp
next
  case (Cons n input)
  obtain e where e: "map_of (mPlugins st) n = Some e"
    using Cons.prems by (cases "map_of (mPlugins st) n") (auto simp add: map_of_eq_None_iff)
  then show ?case
    using Cons by (simp add: getProp_def getSafe_enabled_def)
qed

lemma lineName_original [simp]: "mPluginFormat st = Some original \<Longrightarrow> lineName st key = key"
  by (simp add: lineName_def)

lemma parse_rendered_original:
  assumes f: "mPluginFormat st = Some original" and n: "mNativePlugins st = Some native"
    and d: "distinct srt"
    and v: "\<forall>n \<in> set srt. toLowerCase n \<notin> native \<and> validName original n"
  shows "\<exists>np. parseFiles st (Some (header @ join [CR, LF] srt))
                 (Some (header @ join [CR, LF] (filter (getSafe_enabled m) srt))) = Some np \<and>
              map fst np = srt \<and>
              (\<forall>i < length srt. loadOrderOf np (srt ! i) = int i) \<and>
              (\<forall>n \<in> set srt. getSafe_enabled np n = getSafe_enabled m n)"
proof -
  let ?en = "filter (getSafe_enabled m) srt"
  let ?np0 = "newEntries st False 0 srt"
  have ok: "\<forall>n \<in> set srt. lineOk n"
    using v by (simp add: validName_def)
  have k1: "filterFileData (header @ join [CR, LF] srt) False = srt"
    using ok by (rule filterFileData_rendered)
  have k2: "filterFileData (header @ join [CR, LF] ?en) True = ?en"
    using ok by (intro filterFileData_rendered) simp
  have m1: "map (lineName st) srt = srt"
    using f by (simp add: map_idI)
  have "initFromKeyList_forEach st False srt [] 0 = Some ([] @ ?np0)"
    using d v f m1 by (intro forEach_fresh [OF n]) (auto simp add: validName_def)
  then have p1: "parseLoadorder st (Some (header @ join [CR, LF] srt)) = Some ?np0"
    using f by (simp add: parseLoadorder_def initFromKeyList_def k1)
  have keys0: "map fst ?np0 = srt"
    using m1 by simp
  have "\<forall>key \<in> set ?en. toLowerCase key \<notin> native \<and> key \<in> fst ` set ?np0"
    using v keys0 by (metis filter_is_subset list.set_map subsetD)
  from forEach_existing [OF n f this, of "int (length ?np0)"] obtain np where
    r: "initFromKeyList_forEach st True ?en ?np0 (int (length ?np0)) = Some np"
    and k: "map fst np = map fst ?np0"
    and l: "\<forall>n. loadOrderOf np n = loadOrderOf ?np0 n"
    and en: "\<forall>n. getSafe_enabled np n = (n \<in> set ?en \<or> getSafe_enabled ?np0 n)"
    by blast
  have h: "header @ join [CR, LF] ?en \<noteq> []"
    by (simp add: header_def)
  have pf: "parseFiles st (Some (header @ join [CR, LF] srt)) (Some (header @ join [CR, LF] ?en)) = Some np"
    using r h by (simp add: parseFiles_def p1 initFromKeyList_def k2)
  have lo: "\<forall>i < length srt. loadOrderOf np (srt ! i) = int i"
  proof (intro allI impI)
    fix i assume i: "i < length srt"
    have "map_of ?np0 (lineName st (srt ! i)) =
        Some \<lparr>enabled = lineEnabled st False (srt ! i), loadOrder = 0 + int i\<rparr>"
      using d m1 i by (intro newEntries_lookup) simp_all
    then show "loadOrderOf np (srt ! i) = int i"
      using l f by (simp add: loadOrderOf_def)
  qed
  have e0: "\<forall>n \<in> set srt. \<not> getSafe_enabled ?np0 n"
  proof
    fix n assume "n \<in> set srt"
    then obtain i where i: "i < length srt" and ni: "n = srt ! i"
      by (metis in_set_conv_nth)
    have "map_of ?np0 (lineName st (srt ! i)) =
        Some \<lparr>enabled = lineEnabled st False (srt ! i), loadOrder = 0 + int i\<rparr>"
      using d m1 i by (intro newEntries_lookup) simp_all
    then show "\<not> getSafe_enabled ?np0 n"
      using f ni by (simp add: getSafe_enabled_def lineEnabled_def)
  qed
  have "\<forall>n \<in> set srt. getSafe_enabled np n = getSafe_enabled m n"
    using en e0 by auto
  then show ?thesis
    using pf k keys0 lo by auto
qed

lemma parse_rendered_fallout4:
  assumes f: "mPluginFormat st = Some fallout4" and n: "mNativePlugins st = Some native"
    and d: "distinct srt"
    and v: "\<forall>n \<in> set srt. toLowerCase n \<notin> native \<and> validName fallout4 n"
  shows "\<exists>np. parseFiles st lo (Some (header @ join [CR, LF] (map (mark m) srt))) = Some np \<and>
              map fst np = srt \<and>
              (\<forall>i < length srt. loadOrderOf np (srt ! i) = int i) \<and>
              (\<forall>n \<in> set srt. getSafe_enabled np n = getSafe_enabled m n)"
proof -
  let ?lines = "map (mark m) srt"
  let ?np = "newEntries st True 0 ?lines"
  have star: "\<forall>n \<in> set srt. \<not> startsWith n CHR ''*''"
    using v by (simp add: validName_def)
  have ln: "\<forall>n \<in> set srt. lineName st (mark m n) = n"
    using f star by (simp add: lineName_def mark_def startsWith_def)
  have le: "\<forall>n \<in> set srt. lineEnabled st True (mark m n) = getSafe_enabled m n"
    using star f by (simp add: lineEnabled_def mark_def startsWith_def)
  have ok: "\<forall>l \<in> set ?lines. lineOk l"
    using v by (auto simp add: validName_def lineOk_def mark_def startsWith_def LF_def)
  have k: "filterFileData (header @ join [CR, LF] ?lines) True = ?lines"
    using ok by (rule filterFileData_rendered)
  have m1: "map (lineName st) ?lines = srt"
    using ln by (simp add: map_idI)
  have "initFromKeyList_forEach st True ?lines [] 0 = Some ([] @ ?np)"
    using d v m1 ln by (intro forEach_fresh [OF n]) (auto simp add: validName_def)
  moreover have "parseLoadorder st lo = Some []"
    using f by (simp add: parseLoadorder_def)
  moreover have "header @ join [CR, LF] ?lines \<noteq> []"
    by (simp add: header_def)
  ultimately have pf: "parseFiles st lo (Some (header @ join [CR, LF] ?lines)) = Some ?np"
    by (simp add: parseFiles_def initFromKeyList_def k)
  have keys: "map fst ?np = srt"
    using m1 by simp
  have look: "\<forall>i < length srt. map_of ?np (srt ! i) =
        Some \<lparr>enabled = getSafe_enabled m (srt ! i), loadOrder = int i\<rparr>"
  proof (intro allI impI)
    fix i assume i: "i < length srt"
    have "map_of ?np (lineName st (?lines ! i)) =
        Some \<lparr>enabled = lineEnabled st True (?lines ! i), loadOrder = 0 + int i\<rparr>"
      using d m1 i by (intro newEntries_lookup) simp_all
    then show "map_of ?np (srt ! i) =
        Some \<lparr>enabled = getSafe_enabled m (srt ! i), loadOrder = int i\<rparr>"
      using i ln le by simp
  qed
  have lo: "\<forall>i < length srt. loadOrderOf ?np (srt ! i) = int i"
    using look by (simp add: loadOrderOf_def)
  have "\<forall>n \<in> set srt. getSafe_enabled ?np n = getSafe_enabled m n"
  proof
    fix n assume "n \<in> set srt"
    then obtain i where i: "i < length srt" and ni: "n = srt ! i"
      by (metis in_set_conv_nth)
    then show "getSafe_enabled ?np n = getSafe_enabled m n"
      using look by (simp add: getSafe_enabled_def)
  qed
  then show ?thesis
    using pf keys lo by blast
qed

lemma toPluginListFallout4_mark:
  "toPluginListFallout4 st input = map (mark (mPlugins st)) input"
  by (simp add: toPluginListFallout4_def mark_def)

lemma loadOrderOf_entry:
  "distinct (map fst m) \<Longrightarrow> x \<in> set m \<Longrightarrow> loadOrderOf m (fst x) = loadOrder (snd x)"
  by (cases x) (simp add: loadOrderOf_def)

lemma loadOrderOf_inj:
  assumes "distinct (map fst m)" and "distinct (map (\<lambda>e. loadOrder (snd e)) m)"
  shows "inj_on (loadOrderOf m) (fst ` set m)"
proof (rule inj_onI)
  fix a b
  assume "a \<in> fst ` set m" and "b \<in> fst ` set m" and eq: "loadOrderOf m a = loadOrderOf m b"
  then obtain x y where x: "x \<in> set m" "a = fst x" and y: "y \<in> set m" "b = fst y"
    by auto
  have "loadOrder (snd x) = loadOrder (snd y)"
    using eq x y loadOrderOf_entry [OF assms(1)] by simp
  moreover have "inj_on (\<lambda>e. loadOrder (snd e)) (set m)"
    using assms(2) by (simp add: distinct_map)
  ultimately have "x = y"
    using x(1) y(1) by (auto dest: inj_onD)
  then show "a = b" using x y by simp
qed

lemma order_consistent:
  assumes s: "sorted (map f srt)" and inj: "inj_on f (set srt)" and d: "distinct srt"
    and g: "\<forall>i < length srt. g (srt ! i) = int i"
    and a: "a \<in> set srt" and b: "b \<in> set srt"
  shows "(g a < g b) = (f a < (f b :: int))"
proof -
  obtain i j where i: "i < length srt" "a = srt ! i" and j: "j < length srt" "b = srt ! j"
    using a b by (metis in_set_conv_nth)
  have gi: "(g a < g b) = (i < j)"
    using g i j by simp
  have mono: "\<And>k l. k < l \<Longrightarrow> l < length srt \<Longrightarrow> f (srt ! k) < f (srt ! l)"
  proof -
    fix k l assume kl: "k < l" "l < length srt"
    then have "f (srt ! k) \<le> f (srt ! l)"
      using s by (simp add: sorted_iff_nth_mono)
    moreover have "srt ! k \<noteq> srt ! l"
      using kl d by (simp add: nth_eq_iff_index_eq)
    then have "f (srt ! k) \<noteq> f (srt ! l)"
      using inj kl by (metis inj_onD nth_mem order.strict_trans)
    ultimately show "f (srt ! k) < f (srt ! l)" by simp
  qed
  have "(f a < f b) = (i < j)"
  proof
    assume lt: "f a < f b"
    show "i < j"
    proof (rule ccontr)
      assume "\<not> i < j"
      then have "j < i \<or> j = i" by auto
      then show False
        using lt mono [of j i] i j by auto
    qed
  next
    assume "i < j"
    then show "f a < f b" using mono [of i j] i j by simp
  qed
  then show ?thesis using gi by simp
qed

lemma isWrite_not_reset: "isWrite e \<Longrightarrow> e \<noteq> ResetCallback"
  by (cases e) (simp_all add: isWrite_def)

lemma writesFollowReset_append:
  "writesFollowReset b (xs @ ys) =
     (writesFollowReset b xs \<and> writesFollowReset (b \<or> ResetCallback \<in> set xs) ys)"
proof (induction xs arbitrary: b)
  case Nil
  then show ?case by simp
next
  case (Cons a xs)
  show ?case
  proof (cases "isWrite a")
    case True
    then have "ResetCallback \<noteq> a"
      using isWrite_not_reset by blast
    then show ?thesis
      using True Cons [of b] by auto
  next
    case False
    have "(b \<or> ResetCallback \<in> set (a # xs)) = ((b \<or> a = ResetCallback) \<or> ResetCallback \<in> set xs)"
      by auto
    then show ?thesis
      using False Cons [of "b \<or> a = ResetCallback"] by simp
  qed
qed

lemma writesFollowReset_quiet:
  "\<forall>e \<in> set ys. \<not> isWrite e \<Longrightarrow> writesFollowReset b ys"
  by (induction ys arbitrary: b) simp_all

lemma writesFollowReset_seen: "writesFollowReset True ys"
  by (induction ys) simp_all

lemma extend_invariant:
  assumes "loadedInvariant st"
    and "effects st' = effects st @ new"
    and "mLoaded st \<or> (\<forall>e \<in> set new. \<not> isWrite e)"
    and "mLoaded st' = (mLoaded st \<or> ResetCallback \<in> set new)"
    and "mLoaded st' \<or> (mSerializeQueue st' = [] \<and> writeJobs st' = [])"
  shows "loadedInvariant st'"
proof -
  have w: "writesFollowReset False (effects st)"
    and l: "mLoaded st = (ResetCallback \<in> set (effects st))"
    using assms(1) by (simp_all add: loadedInvariant_def)
  have n: "writesFollowReset (ResetCallback \<in> set (effects st)) new"
  proof (cases "mLoaded st")
    case True
    then show ?thesis using l by (simp add: writesFollowReset_seen)
  next
    case False
    then show ?thesis
      using assms(3) by (simp add: writesFollowReset_quiet)
  qed
  have 1: "writesFollowReset False (effects st')"
    unfolding assms(2) writesFollowReset_append using w n by simp
  have 2: "mLoaded st' = (ResetCallback \<in> set (effects st'))"
    unfolding assms(2) assms(4) l by auto
  show ?thesis
    unfolding loadedInvariant_def using 1 2 assms(5) by blast
qed

lemma inv_setResetCallback: "loadedInvariant st \<Longrightarrow> loadedInvariant (setResetCallback st)"
  by (rule extend_invariant [where new = "[]"]) (auto simp add: setResetCallback_def loadedInvariant_def)

lemma inv_scheduleRefresh: "loadedInvariant st \<Longrightarrow> loadedInvariant (scheduleRefresh t st)"
  by (rule extend_invariant [where new = "(if mRefreshTimer st \<noteq> None then [ClearTimeout] else []) @ [SetTimeout t]"])
    (auto simp add: scheduleRefresh_def loadedInvariant_def isWrite_def)

lemma inv_emit:
  "loadedInvariant st \<Longrightarrow> \<forall>e \<in> set es. \<not> isWrite e \<and> e \<noteq> ResetCallback \<Longrightarrow>
   loadedInvariant (emit es st)"
  by (rule extend_invariant [where new = es]) (auto simp add: loadedInvariant_def)

lemma inv_readJobs: "loadedInvariant (st\<lparr>readJobs := js\<rparr>) = loadedInvariant st"
  by (simp add: loadedInvariant_def)

lemma inv_mRefreshTimer: "loadedInvariant (st\<lparr>mRefreshTimer := t\<rparr>) = loadedInvariant st"
  by (simp add: loadedInvariant_def)

lemma inv_mRetryCounter: "loadedInvariant (st\<lparr>mRetryCounter := t\<rparr>) = loadedInvariant st"
  by (simp add: loadedInvariant_def)

lemma inv_mPlugins: "loadedInvariant (st\<lparr>mPlugins := t\<rparr>) = loadedInvariant st"
  by (simp add: loadedInvariant_def)

lemma inv_deserialize: "loadedInvariant st \<Longrightarrow> loadedInvariant (deserialize st)"
  by (auto simp add: deserialize_def inv_emit inv_readJobs isWrite_def split: option.splits)

lemma inv_deserialize_catch: "loadedInvariant st \<Longrightarrow> loadedInvariant (deserialize_catch st)"
  by (auto simp add: deserialize_catch_def Let_def inv_emit inv_scheduleRefresh inv_mRetryCounter isWrite_def)

lemma inv_deserialize_loaded: "loadedInvariant st \<Longrightarrow> loadedInvariant (deserialize_loaded np st)"
proof (cases "mResetCallback st")
  case False
  then show "loadedInvariant st \<Longrightarrow> loadedInvariant (deserialize_loaded np st)"
    by (simp add: deserialize_loaded_def inv_mPlugins)
next
  case True
  assume i: "loadedInvariant st"
  show "loadedInvariant (deserialize_loaded np st)"
    using i True
    by (intro extend_invariant [OF i, where new = "[ResetCallback]"])
      (auto simp add: deserialize_loaded_def isWrite_def)
qed

lemma readDone_cases:
  "readDone i data st = st \<or>
   readDone i data st = deserialize_catch (st\<lparr>readJobs := dropJob i (readJobs st)\<rparr>) \<or>
   (\<exists>p np. readDone i data st =
      emit [ReadFile p ''plugins.txt''] (st\<lparr>readJobs := (readJobs st)[i := ReadingPlugins np]\<rparr>)) \<or>
   (\<exists>np. readDone i data st = deserialize_loaded np (st\<lparr>readJobs := dropJob i (readJobs st)\<rparr>))"
proof (cases "length (readJobs st) \<le> i")
  case True
  then show ?thesis by (simp add: readDone_def)
next
  case False
  show ?thesis
  proof (cases "readJobs st ! i")
    case ReadingLoadorder
    then show ?thesis
      using False by (auto simp add: readDone_def Let_def split: option.splits)
  next
    case (ReadingPlugins np)
    then show ?thesis
      using False by (auto simp add: readDone_def Let_def split: option.splits)
  qed
qed

lemma inv_readDone: "loadedInvariant st \<Longrightarrow> loadedInvariant (readDone i data st)"
proof -
  assume inv: "loadedInvariant st"
  have a: "loadedInvariant (deserialize_catch (st\<lparr>readJobs := dropJob i (readJobs st)\<rparr>))"
    using inv by (simp add: inv_deserialize_catch inv_readJobs)
  have b: "\<And>p np. loadedInvariant
      (emit [ReadFile p ''plugins.txt''] (st\<lparr>readJobs := (readJobs st)[i := ReadingPlugins np]\<rparr>))"
    using inv by (intro inv_emit) (simp_all add: inv_readJobs isWrite_def)
  have c: "\<And>np. loadedInvariant (deserialize_loaded np (st\<lparr>readJobs := dropJob i (readJobs st)\<rparr>))"
    using inv by (simp add: inv_deserialize_loaded inv_readJobs)
  show ?thesis
    using readDone_cases [of i data st] inv a b c by (elim disjE exE) simp_all
qed

lemma inv_timerFires: "loadedInvariant st \<Longrightarrow> loadedInvariant (timerFires st)"
  by (simp add: timerFires_def inv_deserialize inv_mRefreshTimer)

lemma inv_watchEvent: "loadedInvariant st \<Longrightarrow> loadedInvariant (watchEvent f st)"
  by (simp add: watchEvent_def inv_scheduleRefresh)

lemma inv_startWatch: "loadedInvariant st \<Longrightarrow> loadedInvariant (startWatch ok st)"
  by (auto simp add: startWatch_def Let_def loadedInvariant_def writesFollowReset_append
      isWrite_def split: option.splits)

lemma inv_loadFiles: "loadedInvariant st \<Longrightarrow> loadedInvariant (loadFiles p f n ok st)"
proof -
  assume i: "loadedInvariant st"
  have "loadedInvariant (st\<lparr>mPluginPath := Some p, mPluginFormat := Some f, mNativePlugins := Some n\<rparr>)"
    using i by (auto simp add: loadedInvariant_def)
  then show ?thesis
    unfolding loadFiles_def by (intro inv_startWatch inv_deserialize)
qed

lemma inv_stopSync: "loadedInvariant st \<Longrightarrow> loadedInvariant (stopSync st)"
  by (auto simp add: stopSync_def Let_def loadedInvariant_def writesFollowReset_append
      isWrite_def split: option.splits)

lemma inv_serialize: "loadedInvariant st \<Longrightarrow> loadedInvariant (serialize st)"
  by (auto simp add: serialize_def Let_def loadedInvariant_def writesFollowReset_append
      isWrite_def)

lemma inv_setItem: "loadedInvariant st \<Longrightarrow> loadedInvariant (setItem k v st)"
  by (auto simp add: setItem_def inv_serialize inv_mPlugins split: option.splits)

lemma inv_removeItem: "loadedInvariant st \<Longrightarrow> loadedInvariant (removeItem k st)"
  by (simp add: removeItem_def inv_serialize inv_mPlugins)


lemma inv_loaded_extend:
  assumes "loadedInvariant st" and "mLoaded st" and "mLoaded st'"
    and "effects st' = effects st @ new"
  shows "loadedInvariant st'"
  using assms by (intro extend_invariant [OF assms(1), where new = new]) simp_all

lemma doSerialize_extends:
  "\<exists>new. effects (snd (doSerialize job st)) = effects st @ new"
  by (auto simp add: doSerialize_def Let_def split: option.splits)

lemma doSerialize_mLoaded [simp]: "mLoaded (snd (doSerialize job st)) = mLoaded st"
  by (auto simp add: doSerialize_def Let_def split: option.splits)

lemma tick_extends: "\<exists>new. effects (tick st) = effects st @ new"
proof (cases "mSerializeQueue st")
  case Nil
  then show ?thesis by (simp add: tick_def)
next
  case (Cons p queue)
  obtain ok st2 where d: "doSerialize p (st\<lparr>mSerializeQueue := queue\<rparr>) = (ok, st2)"
    by (cases "doSerialize p (st\<lparr>mSerializeQueue := queue\<rparr>)")
  obtain new where "effects st2 = effects st @ new"
    using doSerialize_extends [of p "st\<lparr>mSerializeQueue := queue\<rparr>"] d by auto
  then show ?thesis
    using Cons d by (cases ok) (auto simp add: tick_def Let_def)
qed

lemma tick_mLoaded [simp]: "mLoaded (tick st) = mLoaded st"
proof (cases "mSerializeQueue st")
  case Nil
  then show ?thesis by (simp add: tick_def)
next
  case (Cons p queue)
  obtain ok st2 where d: "doSerialize p (st\<lparr>mSerializeQueue := queue\<rparr>) = (ok, st2)"
    by (cases "doSerialize p (st\<lparr>mSerializeQueue := queue\<rparr>)")
  have "mLoaded st2 = mLoaded st"
    using doSerialize_mLoaded [of p "st\<lparr>mSerializeQueue := queue\<rparr>"] d by simp
  then show ?thesis
    using Cons d by (cases ok) (auto simp add: tick_def Let_def)
qed

lemma inv_tick: "loadedInvariant st \<Longrightarrow> loadedInvariant (tick st)"
proof (cases "mLoaded st")
  case False
  assume "loadedInvariant st"
  then show ?thesis using False by (simp add: loadedInvariant_def tick_def)
next
  case True
  assume i: "loadedInvariant st"
  obtain new where "effects (tick st) = effects st @ new"
    using tick_extends by blast
  then show ?thesis
    using i True by (intro inv_loaded_extend [OF i True]) simp_all
qed

lemma writeDone_extends: "\<exists>new. effects (writeDone job ok st) = effects st @ new"
  by (auto simp add: writeDone_def Let_def doSerialize_catch_def doSerialize_finally_def
      split: option.splits writeJob.splits)

lemma writeDone_mLoaded [simp]: "mLoaded (writeDone job ok st) = mLoaded st"
  by (auto simp add: writeDone_def Let_def doSerialize_catch_def doSerialize_finally_def
      split: option.splits writeJob.splits)

lemma inv_writeDone: "loadedInvariant st \<Longrightarrow> loadedInvariant (writeDone job ok st)"
proof (cases "mLoaded st")
  case False
  assume "loadedInvariant st"
  then show ?thesis using False by (simp add: loadedInvariant_def writeDone_def)
next
  case True
  assume i: "loadedInvariant st"
  obtain new where "effects (writeDone job ok st) = effects st @ new"
    using writeDone_extends by blast
  then show ?thesis
    using i True by (intro inv_loaded_extend [OF i True]) simp_all
qed

lemma inv_step: "loadedInvariant st \<Longrightarrow> loadedInvariant (step e st)"
  by (cases e)
    (simp_all add: inv_setResetCallback inv_loadFiles inv_stopSync inv_setItem inv_removeItem
      inv_tick inv_writeDone inv_readDone inv_timerFires inv_watchEvent)

lemma inv_run: "loadedInvariant st \<Longrightarrow> loadedInvariant (run es st)"
  unfolding run_def by (induction es arbitrary: st) (simp_all add: inv_step)

lemma inv_constructor: "loadedInvariant constructor"
  by (simp add: loadedInvariant_def constructor_def)

lemma no_reset_no_write:
  "writesFollowReset False xs \<Longrightarrow> ResetCallback \<notin> set xs \<Longrightarrow> filter isWrite xs = []"
  by (induction xs) (auto split: if_splits)

lemma mLoaded_scheduleRefresh: "mLoaded (scheduleRefresh t st) = mLoaded st"
  by (simp add: scheduleRefresh_def)

lemma mLoaded_deserialize [simp]: "mLoaded (deserialize st) = mLoaded st"
  by (simp add: deserialize_def split: option.splits)

lemma mLoaded_startWatch [simp]: "mLoaded (startWatch ok st) = mLoaded st"
  by (simp add: startWatch_def Let_def split: option.splits)

lemma mLoaded_stopSync [simp]: "mLoaded (stopSync st) = mLoaded st"
  by (simp add: stopSync_def Let_def split: option.splits)

lemma mLoaded_serialize [simp]: "mLoaded (serialize st) = mLoaded st"
  by (simp add: serialize_def Let_def)

lemma mLoaded_readDone:
  assumes "\<not> mLoaded st" and "mLoaded (readDone i data st)"
  shows "\<exists>d np. data = Some d \<and> d \<noteq> [] \<and> i < length (readJobs st) \<and>
           readJobs st ! i = ReadingPlugins np \<and> mResetCallback st"
proof (cases "length (readJobs st) \<le> i")
  case True
  then show ?thesis using assms by (simp add: readDone_def)
next
  case False
  show ?thesis
  proof (cases "readJobs st ! i")
    case ReadingLoadorder
    then show ?thesis
      using False assms
      by (auto simp add: readDone_def Let_def deserialize_catch_fields split: option.splits)
  next
    case (ReadingPlugins np)
    then show ?thesis
      using False assms
      by (auto simp add: readDone_def Let_def deserialize_catch_fields deserialize_loaded_fields
          split: option.splits if_splits)
  qed
qed

lemma mLoaded_step:
  assumes "\<not> mLoaded st" and "mLoaded (step e st)"
  shows "\<exists>i d np. e = ReadDone i (Some d) \<and> d \<noteq> [] \<and> i < length (readJobs st) \<and>
           readJobs st ! i = ReadingPlugins np \<and> mResetCallback st"
proof (cases e)
  case (ReadDone i data)
  then show ?thesis
    using assms mLoaded_readDone [of st i data] by auto
next
  case SetResetCallback
  then show ?thesis using assms by (simp add: setResetCallback_def)
next
  case (LoadFiles p f n ok)
  then show ?thesis using assms by (simp add: loadFiles_def)
next
  case StopSync
  then show ?thesis using assms by simp
next
  case (SetItem k v)
  then show ?thesis using assms by (simp add: setItem_def split: option.splits)
next
  case (RemoveItem k)
  then show ?thesis using assms by (simp add: removeItem_def)
next
  case Tick
  then show ?thesis using assms by simp
next
  case (WriteDone j ok)
  then show ?thesis using assms by simp
next
  case TimerFires
  then show ?thesis using assms by (auto simp add: timerFires_def split: if_splits)
next
  case (WatchEvent f)
  then show ?thesis using assms by (auto simp add: watchEvent_def mLoaded_scheduleRefresh split: if_splits)
qed

section \<open>Zero-length plugins.txt\<close>

text \<open>
  C4, as the code has it. The test \<open>data.length === 0\<close> looks at the bytes of
  plugins.txt before any line is stripped. A plugins.txt of length zero takes the same
  path as a failed read: the two reloads end in the same state, the map and the loaded
  flag are untouched and, while the retry counter is positive, it is decremented and a
  refresh is scheduled after 100 ms. A plugins.txt that is not empty but holds only
  comment or blank lines is accepted: the map becomes what loadorder.txt gave, every
  entry disabled (the empty map in the fallout4 format, which reads no loadorder.txt),
  and no retry is scheduled.
\<close>

theorem zero_length_plugins_file:
  "reload lo (Some []) st = reload lo None st \<and>
   (mPluginPath st \<noteq> None \<longrightarrow>
      mPlugins (reload lo (Some []) st) = mPlugins st \<and>
      mLoaded (reload lo (Some []) st) = mLoaded st \<and>
      (0 < mRetryCounter st \<longrightarrow>
         mRetryCounter (reload lo (Some []) st) = mRetryCounter st - 1 \<and>
         mRefreshTimer (reload lo (Some []) st) = Some 100)) \<and>
   (\<forall>p newPlugins d.
      mPluginPath st = Some p \<and> parseLoadorder st lo = Some newPlugins \<and>
      d \<noteq> [] \<and> filterFileData d True = []
      \<longrightarrow> mPlugins (reload lo (Some d) st) = newPlugins \<and>
          mRefreshTimer (reload lo (Some d) st) = mRefreshTimer st)"
proof (intro conjI allI impI)
  show eq: "reload lo (Some []) st = reload lo None st"
  proof (cases "mPluginPath st")
    case None
    then show ?thesis by (simp add: reload_unbound)
  next
    case (Some p)
    show ?thesis by (simp add: reload_eq [OF Some] parseFiles_empty)
  qed
  {
    assume "mPluginPath st \<noteq> None"
    then obtain p where p: "mPluginPath st = Some p" by auto
    have f: "reload lo (Some []) st = deserialize_catch (emit (reads st p lo) st)"
      by (simp add: reload_eq [OF p] parseFiles_def split: option.splits)
    show "mPlugins (reload lo (Some []) st) = mPlugins st"
      by (simp add: f deserialize_catch_fields)
    show "mLoaded (reload lo (Some []) st) = mLoaded st"
      by (simp add: f deserialize_catch_fields)
    assume "0 < mRetryCounter st"
    then show "mRetryCounter (reload lo (Some []) st) = mRetryCounter st - 1"
      and "mRefreshTimer (reload lo (Some []) st) = Some 100"
      by (simp_all add: f deserialize_catch_fields)
  }
  fix p newPlugins d
  assume a: "mPluginPath st = Some p \<and> parseLoadorder st lo = Some newPlugins \<and>
      d \<noteq> [] \<and> filterFileData d True = []"
  then have "parseFiles st lo (Some d) = Some newPlugins"
    by (simp add: parseFiles_def initFromKeyList_def)
  then have f: "reload lo (Some d) st = deserialize_loaded newPlugins (emit (reads st p lo) st)"
    using a by (simp add: reload_eq)
  show "mPlugins (reload lo (Some d) st) = newPlugins"
    by (simp add: f deserialize_loaded_fields)
  show "mRefreshTimer (reload lo (Some d) st) = mRefreshTimer st"
    by (simp add: f deserialize_loaded_fields)
qed


theorem zero_length_plugins_file_witness:
  "mPluginPath loadedFallout4 \<noteq> None \<and> 0 < mRetryCounter loadedFallout4 \<and>
   reload None (Some []) loadedFallout4 = reload None None loadedFallout4 \<and>
   mPlugins (reload None (Some []) loadedFallout4) = mPlugins loadedFallout4 \<and>
   mRetryCounter (reload None (Some []) loadedFallout4) = 2 \<and>
   mRefreshTimer (reload None (Some []) loadedFallout4) = Some 100 \<and>
   parseLoadorder loadedFallout4 None = Some [] \<and> header \<noteq> [] \<and>
   filterFileData header True = [] \<and>
   mPlugins (reload None (Some header) loadedFallout4) = []"
proof -
  have p: "mPluginPath loadedFallout4 = Some ''Fallout4''"
    by code_simp
  have c: "mRetryCounter loadedFallout4 = 3"
    by code_simp
  have l: "parseLoadorder loadedFallout4 None = Some []"
    by code_simp
  have h: "header \<noteq> []" "filterFileData header True = []"
    by code_simp+
  show ?thesis
    using zero_length_plugins_file [of None loadedFallout4] p c l h by auto
qed

text \<open>
  C4 as stated fails: the generated header alone is zero-length once the comment line is
  stripped, and the reload takes it as a valid empty map. The callback fires, nothing is
  logged and no retry is scheduled.
\<close>

theorem header_only_counterexample:
  "filterFileData header True = [] \<and>
   mPlugins headerOnly = [] \<and> mLoaded headerOnly \<and>
   mRefreshTimer headerOnly = None \<and> mRetryCounter headerOnly = 3 \<and>
   effects headerOnly =
     [ReadFile ''Fallout4'' ''plugins.txt'', Watch ''Fallout4'' 0, ResetCallback]"
  by code_simp

section \<open>A successful reload\<close>

text \<open>
  C5, as the code has it. A reload succeeds when both continuations of \<open>deserialize\<close>
  run to their end, that is when \<open>parseFiles\<close> gives an object. The map is then
  replaced by that object. With a reset callback registered, the loaded flag is set, the
  retry counter is back at 3 and the callback is the last thing the reload does. With no
  callback registered the guard \<open>if (this.mResetCallback)\<close> skips all three: the
  loaded flag and the retry counter stay as they were.
\<close>

theorem successful_reload:
  assumes "mPluginPath st = Some p" and "parseFiles st lo pl = Some newPlugins"
  shows "mPlugins (reload lo pl st) = newPlugins \<and>
         (mResetCallback st \<longrightarrow>
            mLoaded (reload lo pl st) \<and> mRetryCounter (reload lo pl st) = 3 \<and>
            effects (reload lo pl st) = effects st @ reads st p lo @ [ResetCallback]) \<and>
         (\<not> mResetCallback st \<longrightarrow>
            mLoaded (reload lo pl st) = mLoaded st \<and>
            mRetryCounter (reload lo pl st) = mRetryCounter st \<and>
            effects (reload lo pl st) = effects st @ reads st p lo)"
proof -
  have f: "reload lo pl st = deserialize_loaded newPlugins (emit (reads st p lo) st)"
    using assms by (simp add: reload_eq)
  show ?thesis
    unfolding f by (simp add: deserialize_loaded_fields retryCount_def)
qed

theorem successful_reload_witness:
  "mPluginPath loadedFallout4 = Some ''Fallout4'' \<and>
   parseFiles loadedFallout4 None (Some ''*ModZ.esp'') =
     Some [(''ModZ.esp'', \<lparr>enabled = True, loadOrder = 0\<rparr>)] \<and>
   mResetCallback loadedFallout4 \<and>
   mPlugins (reload None (Some ''*ModZ.esp'') loadedFallout4) =
     [(''ModZ.esp'', \<lparr>enabled = True, loadOrder = 0\<rparr>)] \<and>
   mLoaded (reload None (Some ''*ModZ.esp'') loadedFallout4) \<and>
   mRetryCounter (reload None (Some ''*ModZ.esp'') loadedFallout4) = 3"
proof -
  have p: "mPluginPath loadedFallout4 = Some ''Fallout4''"
    by code_simp
  have f: "parseFiles loadedFallout4 None (Some ''*ModZ.esp'') =
     Some [(''ModZ.esp'', \<lparr>enabled = True, loadOrder = 0\<rparr>)]"
    by code_simp
  have c: "mResetCallback loadedFallout4"
    by code_simp
  show ?thesis
    using successful_reload [OF p f] p f c by simp
qed

text \<open>
  C5 as stated fails when no reset callback is registered: after a failed first read the
  retry reads plugins.txt and replaces the map, but the loaded flag stays false, the
  retry counter stays at 2 and no callback fires.
\<close>

theorem no_callback_counterexample:
  "mPlugins noCallback = [(''ModX.esp'', \<lparr>enabled = True, loadOrder = 0\<rparr>)] \<and>
   \<not> mLoaded noCallback \<and> mRetryCounter noCallback = 2 \<and>
   effects noCallback =
     [ReadFile ''Fallout4'' ''plugins.txt'', Watch ''Fallout4'' 0,
      Log ''warn'' ''failed to read plugin file'', SetTimeout 100,
      ReadFile ''Fallout4'' ''plugins.txt'']"
  by code_simp

section \<open>The retry budget\<close>

text \<open>
  C7, as the code has it. The retry counter is filled to \<open>retryCount\<close> by the
  constructor and by a reload that fires the reset callback, and by nothing else:
  neither \<open>loadFiles\<close> nor \<open>stopSync\<close> touches it. From a bound persistor whose
  counter is full, let four reloads in a row fail, each for any of the reasons that lead
  into the \<open>catch\<close> handler. The first is followed by three retries, each scheduled
  with a delay of 100 ms and started by \<open>timerFires\<close>, which makes three timers in
  all. The fourth failure schedules nothing, so the timer has nothing more to fire, the
  counter is at zero and the map is the one from before the failures.
\<close>

theorem retry_budget:
  assumes "mPluginPath st = Some p" and "mRetryCounter st = retryCount"
    and "parseFiles st lo1 pl1 = None" and "parseFiles st lo2 pl2 = None"
    and "parseFiles st lo3 pl3 = None" and "parseFiles st lo4 pl4 = None"
  shows "let s1 = reload lo1 pl1 st;
             s2 = timerReload lo2 pl2 s1;
             s3 = timerReload lo3 pl3 s2;
             s4 = timerReload lo4 pl4 s3
         in mRefreshTimer s1 = Some 100 \<and> mRefreshTimer s2 = Some 100 \<and>
            mRefreshTimer s3 = Some 100 \<and> mRefreshTimer s4 = None \<and>
            count_list (effects s4) (SetTimeout 100) = count_list (effects st) (SetTimeout 100) + 3 \<and>
            mRetryCounter s4 = 0 \<and> mPlugins s4 = mPlugins st \<and>
            (\<forall>lo pl. timerReload lo pl s4 = s4)"
proof -
  define s1 where "s1 = reload lo1 pl1 st"
  define s2 where "s2 = timerReload lo2 pl2 s1"
  define s3 where "s3 = timerReload lo3 pl3 s2"
  define s4 where "s4 = timerReload lo4 pl4 s3"
  note r1 = failed_reload_fields [OF assms(1) assms(3), folded s1_def]
  have c1: "mRetryCounter s1 = 2" and t1: "mRefreshTimer s1 = Some 100"
    and n1: "count_list (effects s1) (SetTimeout 100) = count_list (effects st) (SetTimeout 100) + 1"
    using r1 assms(2) by (simp_all add: retryCount_def)
  have f2: "parseFiles s1 lo2 pl2 = None"
    using assms(4) parseFiles_cong [of s1 st lo2 pl2] r1 by simp
  have tn1: "mRefreshTimer s1 \<noteq> None" using t1 by simp
  note r2 = failed_timerReload_fields [OF r1(1) f2 tn1, folded s2_def]
  have c2: "mRetryCounter s2 = 1" and t2: "mRefreshTimer s2 = Some 100"
    and n2: "count_list (effects s2) (SetTimeout 100) = count_list (effects st) (SetTimeout 100) + 2"
    using r2 c1 n1 by simp_all
  have f3: "parseFiles s2 lo3 pl3 = None"
    using assms(5) parseFiles_cong [of s2 st lo3 pl3] r1 r2 by simp
  have tn2: "mRefreshTimer s2 \<noteq> None" using t2 by simp
  note r3 = failed_timerReload_fields [OF r2(1) f3 tn2, folded s3_def]
  have c3: "mRetryCounter s3 = 0" and t3: "mRefreshTimer s3 = Some 100"
    and n3: "count_list (effects s3) (SetTimeout 100) = count_list (effects st) (SetTimeout 100) + 3"
    using r3 c2 n2 by simp_all
  have f4: "parseFiles s3 lo4 pl4 = None"
    using assms(6) parseFiles_cong [of s3 st lo4 pl4] r1 r2 r3 by simp
  have tn3: "mRefreshTimer s3 \<noteq> None" using t3 by simp
  note r4 = failed_timerReload_fields [OF r3(1) f4 tn3, folded s4_def]
  have c4: "mRetryCounter s4 = 0" and t4: "mRefreshTimer s4 = None"
    and n4: "count_list (effects s4) (SetTimeout 100) = count_list (effects st) (SetTimeout 100) + 3"
    using r4 c3 n3 by simp_all
  have m4: "mPlugins s4 = mPlugins st"
    using r1(4) r2(4) r3(4) r4(4) by simp
  have stop: "\<forall>lo pl. timerReload lo pl s4 = s4"
    using t4 by (simp add: timerReload_eq)
  show ?thesis
    unfolding Let_def
    using t1 t2 t3 t4 n4 c4 m4 stop
    by (simp add: s1_def s2_def s3_def s4_def)
qed


theorem retry_budget_witness:
  "mPluginPath loadedFallout4 = Some ''Fallout4'' \<and>
   mRetryCounter loadedFallout4 = retryCount \<and>
   parseFiles loadedFallout4 None None = None \<and>
   parseFiles loadedFallout4 None (Some []) = None \<and>
   mRefreshTimer (reload None None loadedFallout4) = Some 100 \<and>
   mRefreshTimer
     (timerReload None (Some []) (timerReload None None (timerReload None (Some [])
        (reload None None loadedFallout4)))) = None \<and>
   mRetryCounter
     (timerReload None (Some []) (timerReload None None (timerReload None (Some [])
        (reload None None loadedFallout4)))) = 0 \<and>
   mPlugins
     (timerReload None (Some []) (timerReload None None (timerReload None (Some [])
        (reload None None loadedFallout4)))) = mPlugins loadedFallout4"
proof -
  have p: "mPluginPath loadedFallout4 = Some ''Fallout4''"
    by code_simp
  have c: "mRetryCounter loadedFallout4 = retryCount"
    by code_simp
  have f1: "parseFiles loadedFallout4 None None = None"
    by code_simp
  have f2: "parseFiles loadedFallout4 None (Some []) = None"
    by code_simp
  show ?thesis
    using retry_budget [OF p c f1 f2 f1 f2] p c f1 f2 by (simp add: Let_def)
qed

text \<open>
  C7 as stated fails when the budget is not full. After the four failures above the
  counter is at zero. Unbinding and binding to another directory does not refill it: the
  first read on the new path fails and no retry is scheduled, and the three later reads
  that the watcher starts fail without a retry as well. The four failures on the new
  path are logged, and no timer of 100 ms is set after the three of the first binding.
\<close>

theorem retry_budget_counterexample:
  "mRetryCounter exhausted = 0 \<and> mRefreshTimer exhausted = None \<and>
   count_list (effects exhausted) (SetTimeout 100) = 3 \<and>
   mPluginPath rebound = Some ''Skyrim'' \<and>
   mRetryCounter rebound = 0 \<and> mRefreshTimer rebound = None \<and>
   count_list (effects rebound) (Log ''warn'' ''failed to read plugin file'') =
     count_list (effects exhausted) (Log ''warn'' ''failed to read plugin file'') + 4 \<and>
   count_list (effects rebound) (SetTimeout 100) = 3 \<and>
   timerFires rebound = rebound"
  by code_simp

section \<open>The files written in the fallout4 format\<close>

text \<open>
  C2, as the code has it. \<open>doSerialize\<close> does not look at the format before it writes
  loadorder.txt. In the fallout4 format a serialization whose writes succeed therefore
  writes two files: first loadorder.txt in UTF-8, the header followed by the names that
  are not native, one per line in ascending \<open>loadOrder\<close>; then plugins.txt in Latin-1,
  the header followed by the same names in the same order, each enabled one with the
  marker \<open>*\<close> in front.
\<close>

theorem fallout4_writes_two_files:
  assumes "mPluginPath st = Some p" and "mPluginFormat st = Some fallout4"
    and "mNativePlugins st = Some native" and "map_of (writeJobs st) job = None"
  shows "let srt = sort_key (loadOrderOf (mPlugins st))
                     (filter (\<lambda>n. toLowerCase n \<notin> native) (map fst (mPlugins st)))
         in effects (writeFiles job True True st) =
              effects st @
                [WriteFile p ''loadorder.txt'' utf8 (header @ join [CR, LF] srt),
                 WriteFile p ''plugins.txt'' latin1
                   (header @ join [CR, LF]
                      (map (\<lambda>n. if getSafe_enabled (mPlugins st) n then CHR ''*'' # n else n) srt))] \<and>
            set srt = {n \<in> fst ` set (mPlugins st). toLowerCase n \<notin> native} \<and>
            sorted (map (loadOrderOf (mPlugins st)) srt)"
proof -
  define srt where "srt = sort_key (loadOrderOf (mPlugins st))
                     (filter (\<lambda>n. toLowerCase n \<notin> native) (map fst (mPlugins st)))"
  have s: "sortedNames st = Some srt"
    using assms(3) by (simp add: sortedNames_bound srt_def)
  have t: "toPluginList st srt =
      Some (map (\<lambda>n. if getSafe_enabled (mPlugins st) n then CHR ''*'' # n else n) srt)"
    using assms(2) by (simp add: toPluginList_def toPluginListFallout4_def)
  have "effects (writeFiles job True True st) =
              effects st @
                [WriteFile p ''loadorder.txt'' utf8 (header @ join [CR, LF] srt),
                 WriteFile p ''plugins.txt'' latin1
                   (header @ join [CR, LF]
                      (map (\<lambda>n. if getSafe_enabled (mPlugins st) n then CHR ''*'' # n else n) srt))]"
    by (simp add: writeFiles_bound [OF assms(1) s t assms(4)])
  moreover have "set srt = {n \<in> fst ` set (mPlugins st). toLowerCase n \<notin> native}"
    by (rule sortedNames_set [OF assms(3) s])
  moreover have "sorted (map (loadOrderOf (mPlugins st)) srt)"
    by (rule sortedNames_sorted [OF s])
  ultimately show ?thesis
    unfolding Let_def srt_def by simp
qed

theorem fallout4_writes_two_files_witness:
  "mPluginPath withNative = Some ''Fallout4'' \<and> mPluginFormat withNative = Some fallout4 \<and>
   mNativePlugins withNative = Some {''fallout4.esm''} \<and> map_of (writeJobs withNative) 5 = None \<and>
   effects (writeFiles 5 True True withNative) =
     effects withNative @
       [WriteFile ''Fallout4'' ''loadorder.txt'' utf8
          (header @ ''Early.esp'' @ [CR, LF] @ ''Late.esp''),
        WriteFile ''Fallout4'' ''plugins.txt'' latin1
          (header @ ''*Early.esp'' @ [CR, LF] @ ''Late.esp'')]"
proof -
  have p: "mPluginPath withNative = Some ''Fallout4''" by code_simp
  have f: "mPluginFormat withNative = Some fallout4" by code_simp
  have n: "mNativePlugins withNative = Some {''fallout4.esm''}" by code_simp
  have j: "map_of (writeJobs withNative) 5 = None" by code_simp
  have m: "mPlugins withNative = [(''Late.esp'', \<lparr>enabled = False, loadOrder = 7\<rparr>),
              (''Fallout4.esm'', \<lparr>enabled = True, loadOrder = 0\<rparr>),
              (''Early.esp'', \<lparr>enabled = True, loadOrder = 2\<rparr>)]" by code_simp
  have s: "sort_key (loadOrderOf (mPlugins withNative))
             (filter (\<lambda>n. toLowerCase n \<notin> {''fallout4.esm''}) (map fst (mPlugins withNative)))
           = [''Early.esp'', ''Late.esp'']"
    by code_simp
  have e: "map (\<lambda>n. if getSafe_enabled (mPlugins withNative) n then CHR ''*'' # n else n)
             [''Early.esp'', ''Late.esp''] = [''*Early.esp'', ''Late.esp'']"
    by code_simp
  show ?thesis
    using fallout4_writes_two_files [OF p f n j] p f n j
    unfolding Let_def s e by simp
qed

text \<open>
  C2 as stated fails: a serialize request on the loaded Fallout 4 persistor writes
  loadorder.txt before it writes plugins.txt.
\<close>

theorem fallout4_loadorder_counterexample:
  "mPluginFormat loadedFallout4 = Some fallout4 \<and>
   effects (run [RemoveItem ''Gone.esp'', Tick, WriteDone 0 True, WriteDone 0 True] loadedFallout4) =
     effects loadedFallout4 @
       [WriteFile ''Fallout4'' ''loadorder.txt'' utf8
          (header @ ''ModX.esp'' @ [CR, LF] @ ''ModY.esp''),
        Settled 0 True,
        WriteFile ''Fallout4'' ''plugins.txt'' latin1
          (header @ ''*ModX.esp'' @ [CR, LF] @ ''ModY.esp'')]"
  by code_simp


section \<open>Unbinding\<close>

text \<open>
  C3, as the code has it. \<open>stopSync\<close> clears the path, the format and the native set
  and closes the watcher, if there is one. It does not touch \<open>mPlugins\<close>: the map is
  the one from before the call, and \<open>getItem\<close> returns the same text as before.
\<close>

theorem stopSync_keeps_map:
  "mPluginPath (stopSync st) = None \<and> mPluginFormat (stopSync st) = None \<and>
   mNativePlugins (stopSync st) = None \<and> mWatch (stopSync st) = None \<and>
   (\<forall>w. mWatch st = Some w \<longrightarrow> effects (stopSync st) = effects st @ [WatchClose w]) \<and>
   mPlugins (stopSync st) = mPlugins st \<and>
   getItem key (stopSync st) = getItem key st"
  by (cases "mWatch st") (simp_all add: stopSync_def getItem_def Let_def)

theorem stopSync_keeps_map_witness:
  "mWatch loadedFallout4 = Some 0 \<and>
   effects (stopSync loadedFallout4) = effects loadedFallout4 @ [WatchClose 0] \<and>
   mPluginPath (stopSync loadedFallout4) = None \<and>
   mPlugins (stopSync loadedFallout4) = mPlugins loadedFallout4 \<and>
   getItem ''loadOrder'' (stopSync loadedFallout4) = getItem ''loadOrder'' loadedFallout4"
proof -
  have w: "mWatch loadedFallout4 = Some 0" by code_simp
  show ?thesis
    using stopSync_keeps_map [of loadedFallout4 "''loadOrder''"] w by simp
qed

text \<open>
  C3 as stated fails: after \<open>stopSync\<close> on the loaded Fallout 4 persistor the map
  still holds both plugins and \<open>getItem\<close> does not return the text of the empty map.
\<close>

theorem stopSync_counterexample:
  "mPlugins (stopSync loadedFallout4) =
     [(''ModX.esp'', \<lparr>enabled = True, loadOrder = 0\<rparr>),
      (''ModY.esp'', \<lparr>enabled = False, loadOrder = 1\<rparr>)] \<and>
   getItem ''loadOrder'' (stopSync loadedFallout4) \<noteq> JSON_stringify [] \<and>
   JSON_stringify [] = ''{}''"
  by code_simp

section \<open>Native plugins\<close>

text \<open>
  C9. Let the lower-cased form of a name be in the native set. Then the name is not
  among the names \<open>sorted\<close> that \<open>doSerialize\<close> renders, whether or not it is a key of
  the map. The two files hold nothing else: loadorder.txt is the header and these names,
  plugins.txt the header and lines that are each one of these names, in the fallout4
  format with the marker in front when enabled. And after a reload that succeeded the
  name is not a key of the map, whatever the files held.
\<close>

theorem native_names_excluded:
  assumes "mNativePlugins st = Some native" and "toLowerCase name \<in> native"
  shows "(\<forall>srt. sortedNames st = Some srt \<longrightarrow> name \<notin> set srt) \<and>
         (\<forall>p job srt filtered.
            mPluginPath st = Some p \<and> map_of (writeJobs st) job = None \<and>
            sortedNames st = Some srt \<and> toPluginList st srt = Some filtered \<longrightarrow>
            effects (writeFiles job True True st) =
              effects st @
                [WriteFile p ''loadorder.txt'' utf8 (header @ join [CR, LF] srt),
                 WriteFile p ''plugins.txt'' latin1 (header @ join [CR, LF] filtered)] \<and>
            (\<forall>line \<in> set filtered. \<exists>n \<in> set srt. line = n \<or> line = CHR ''*'' # n)) \<and>
         (\<forall>p lo pl.
            mPluginPath st = Some p \<and> parseFiles st lo pl \<noteq> None \<longrightarrow>
            name \<notin> fst ` set (mPlugins (reload lo pl st)))"
proof (intro conjI allI impI)
  fix srt
  assume "sortedNames st = Some srt"
  then show "name \<notin> set srt"
    using sortedNames_set [OF assms(1)] assms(2) by auto
next
  fix p job srt filtered
  assume a: "mPluginPath st = Some p \<and> map_of (writeJobs st) job = None \<and>
            sortedNames st = Some srt \<and> toPluginList st srt = Some filtered"
  then show "effects (writeFiles job True True st) =
              effects st @
                [WriteFile p ''loadorder.txt'' utf8 (header @ join [CR, LF] srt),
                 WriteFile p ''plugins.txt'' latin1 (header @ join [CR, LF] filtered)]"
    by (simp add: writeFiles_bound)
  show "\<forall>line \<in> set filtered. \<exists>n \<in> set srt. line = n \<or> line = CHR ''*'' # n"
    using a toPluginList_lines by blast
next
  fix p lo pl
  assume "mPluginPath st = Some p \<and> parseFiles st lo pl \<noteq> None"
  then show "name \<notin> fst ` set (mPlugins (reload lo pl st))"
    using reload_keys [OF _ assms(1)] assms(2) by auto
qed

theorem native_names_excluded_witness:
  "mNativePlugins withNative = Some {''fallout4.esm''} \<and>
   toLowerCase ''Fallout4.esm'' \<in> {''fallout4.esm''} \<and>
   map_of (mPlugins withNative) ''Fallout4.esm'' \<noteq> None \<and>
   mPluginPath withNative = Some ''Fallout4'' \<and>
   sortedNames withNative = Some [''Early.esp'', ''Late.esp''] \<and>
   ''Fallout4.esm'' \<notin> set [''Early.esp'', ''Late.esp''] \<and>
   parseFiles withNative None (Some (''*Fallout4.esm'' @ [LF] @ ''ModA.esp'')) \<noteq> None \<and>
   ''Fallout4.esm'' \<notin> fst ` set (mPlugins
      (reload None (Some (''*Fallout4.esm'' @ [LF] @ ''ModA.esp'')) withNative))"
proof -
  have n: "mNativePlugins withNative = Some {''fallout4.esm''}" by code_simp
  have l: "toLowerCase ''Fallout4.esm'' \<in> {''fallout4.esm''}" by code_simp
  have m: "map_of (mPlugins withNative) ''Fallout4.esm'' \<noteq> None" by code_simp
  have p: "mPluginPath withNative = Some ''Fallout4''" by code_simp
  have s: "sortedNames withNative = Some [''Early.esp'', ''Late.esp'']" by code_simp
  have f: "parseFiles withNative None (Some (''*Fallout4.esm'' @ [LF] @ ''ModA.esp'')) \<noteq> None"
    by code_simp
  show ?thesis
    using native_names_excluded [OF n l] n l m p s f by auto
qed

section \<open>The keys after a reload\<close>

text \<open>
  C10 on a plugins.txt that names a plugin \<open>constructor\<close>. The name is on a line of
  the file and is not native, and the reload succeeds, but \<open>plugins[key] !==
  undefined\<close> finds the property that \<open>{}\<close> inherits from \<open>Object.prototype\<close>, so the
  name does not become a key. Lemma \<open>reload_keys\<close> has the key set for every
  successful reload: the names on the lines of the files that are neither native nor
  property names of \<open>Object.prototype\<close>; by \<open>parseFiles_from_scratch\<close> it does not
  depend on the map from before the reload.
\<close>

theorem inherited_name_dropped:
  "''constructor'' \<in> fileNames boundFallout4 None (Some (header @ ''constructor'' @ [CR, LF] @ ''*ModA.esp'')) \<and>
   mNativePlugins boundFallout4 = Some {''fallout4.esm''} \<and>
   toLowerCase ''constructor'' \<notin> {''fallout4.esm''} \<and>
   mLoaded inheritedName \<and>
   mPlugins inheritedName = [(''ModA.esp'', \<lparr>enabled = True, loadOrder = 0\<rparr>)]"
  by code_simp


section \<open>Round trip\<close>

text \<open>
  C8, as the code has it. Take a map with unique names and distinct \<open>loadOrder\<close>
  values, none of whose names is native, and let every name be one that survives in
  the file: made of the characters U+0000 to U+00FF only, which are the strings of this
  embedding and the ones that the Latin-1 encoding of plugins.txt can carry, not empty,
  not beginning with \<open>#\<close>, without a line feed, not a property name of
  \<open>Object.prototype\<close> and, in the fallout4 format, not beginning with \<open>*\<close>.
  Serialize it and reload from the two texts that were written. The map then has the
  same names, each exactly once and with the same \<open>enabled\<close> value, and two names
  compare by \<open>loadOrder\<close> as they did before. In the fallout4 format the enabled value
  comes from the marker alone, as only plugins.txt is read.
\<close>

theorem round_trip:
  assumes "mPluginPath st = Some p" and "mPluginFormat st = Some f"
    and "mNativePlugins st = Some native"
    and "distinct (map fst (mPlugins st))"
    and "distinct (map (\<lambda>e. loadOrder (snd e)) (mPlugins st))"
    and "\<forall>n \<in> fst ` set (mPlugins st). toLowerCase n \<notin> native \<and> validName f n"
    and "map_of (writeJobs st) job = None"
  shows "\<exists>lo pl.
      effects (writeFiles job True True st) =
        effects st @ [WriteFile p ''loadorder.txt'' utf8 lo, WriteFile p ''plugins.txt'' latin1 pl] \<and>
      fst ` set (mPlugins (reload (Some lo) (Some pl) (writeFiles job True True st))) =
        fst ` set (mPlugins st) \<and>
      distinct (map fst (mPlugins (reload (Some lo) (Some pl) (writeFiles job True True st)))) \<and>
      (\<forall>n \<in> fst ` set (mPlugins st).
         getSafe_enabled (mPlugins (reload (Some lo) (Some pl) (writeFiles job True True st))) n =
         getSafe_enabled (mPlugins st) n) \<and>
      (\<forall>a \<in> fst ` set (mPlugins st). \<forall>b \<in> fst ` set (mPlugins st).
         (loadOrderOf (mPlugins (reload (Some lo) (Some pl) (writeFiles job True True st))) a
            < loadOrderOf (mPlugins (reload (Some lo) (Some pl) (writeFiles job True True st))) b) =
         (loadOrderOf (mPlugins st) a < loadOrderOf (mPlugins st) b))"
proof -
  let ?m = "mPlugins st"
  define srt where "srt = sort_key (loadOrderOf ?m)
      (filter (\<lambda>pluginName. toLowerCase pluginName \<notin> native) (map fst ?m))"
  have sn: "sortedNames st = Some srt"
    using assms(3) by (simp add: sortedNames_bound srt_def)
  have set_srt: "set srt = fst ` set ?m"
    using sortedNames_set [OF assms(3) sn] assms(6) by auto
  have d: "distinct srt"
    using sortedNames_distinct [OF sn assms(4)] .
  have srtd: "sorted (map (loadOrderOf ?m) srt)"
    using sortedNames_sorted [OF sn] .
  have v: "\<forall>n \<in> set srt. toLowerCase n \<notin> native \<and> validName f n"
    using assms(6) set_srt by simp
  define filtered where "filtered =
      (if f = original then filter (getSafe_enabled ?m) srt else map (mark ?m) srt)"
  have tp: "toPluginList st srt = Some filtered"
  proof (cases f)
    case original
    then show ?thesis
      using assms(2) set_srt
      by (simp add: toPluginList_def toPluginListOriginal_own filtered_def)
  next
    case fallout4
    then show ?thesis
      using assms(2)
      by (simp add: toPluginList_def toPluginListFallout4_mark filtered_def)
  qed
  define lo where "lo = header @ join [CR, LF] srt"
  define pl where "pl = header @ join [CR, LF] filtered"
  define st' where "st' = writeFiles job True True st"
  have w: "st' = st\<lparr>mSerializing := False,
        effects := effects st @
          [WriteFile p ''loadorder.txt'' utf8 lo, WriteFile p ''plugins.txt'' latin1 pl]\<rparr>"
    unfolding st'_def lo_def pl_def
    by (rule writeFiles_bound [OF assms(1) sn tp assms(7)])
  have p': "mPluginPath st' = Some p"
    using assms(1) by (simp add: w)
  have cong: "parseFiles st' (Some lo) (Some pl) = parseFiles st (Some lo) (Some pl)"
    by (rule parseFiles_cong) (simp_all add: w)
  have "\<exists>np. parseFiles st (Some lo) (Some pl) = Some np \<and>
              map fst np = srt \<and>
              (\<forall>i < length srt. loadOrderOf np (srt ! i) = int i) \<and>
              (\<forall>n \<in> set srt. getSafe_enabled np n = getSafe_enabled ?m n)"
  proof (cases f)
    case original
    then show ?thesis
      using parse_rendered_original [OF _ assms(3) d, where m = ?m] assms(2) v
      by (simp add: lo_def pl_def filtered_def)
  next
    case fallout4
    then show ?thesis
      using parse_rendered_fallout4 [OF _ assms(3) d, where m = ?m and lo = "Some lo"] assms(2) v
      by (simp add: pl_def filtered_def)
  qed
  then obtain np where pf: "parseFiles st (Some lo) (Some pl) = Some np"
    and keys: "map fst np = srt"
    and ord: "\<forall>i < length srt. loadOrderOf np (srt ! i) = int i"
    and en: "\<forall>n \<in> set srt. getSafe_enabled np n = getSafe_enabled ?m n"
    by blast
  have r: "mPlugins (reload (Some lo) (Some pl) st') = np"
    by (simp add: reload_eq [OF p'] cong pf deserialize_loaded_fields)
  have inj: "inj_on (loadOrderOf ?m) (set srt)"
    unfolding set_srt by (rule loadOrderOf_inj [OF assms(4,5)])
  have k: "fst ` set np = fst ` set ?m"
    using keys set_srt by (metis set_map)
  have oc: "\<forall>a \<in> fst ` set ?m. \<forall>b \<in> fst ` set ?m.
         (loadOrderOf np a < loadOrderOf np b) = (loadOrderOf ?m a < loadOrderOf ?m b)"
    using order_consistent [OF srtd inj d ord] set_srt by blast
  have "effects st' =
        effects st @ [WriteFile p ''loadorder.txt'' utf8 lo, WriteFile p ''plugins.txt'' latin1 pl]"
    by (simp add: w)
  then show ?thesis
    unfolding st'_def [symmetric]
    using r k keys d en oc set_srt
    by (intro exI [of _ lo] exI [of _ pl]) simp
qed


theorem round_trip_witness:
  "mPluginPath skyrim = Some ''Skyrim'' \<and> mPluginFormat skyrim = Some original \<and>
   mNativePlugins skyrim = Some {''skyrim.esm''} \<and>
   mPlugins skyrim = [(''Late.esp'', \<lparr>enabled = True, loadOrder = 7\<rparr>),
                      (''Early.esp'', \<lparr>enabled = False, loadOrder = 2\<rparr>)] \<and>
   validName original ''Late.esp'' \<and> validName original ''Early.esp'' \<and>
   map_of (writeJobs skyrim) 0 = None \<and>
   effects (writeFiles 0 True True skyrim) =
     effects skyrim @
       [WriteFile ''Skyrim'' ''loadorder.txt'' utf8 (header @ ''Early.esp'' @ [CR, LF] @ ''Late.esp''),
        WriteFile ''Skyrim'' ''plugins.txt'' latin1 (header @ ''Late.esp'')] \<and>
   fst ` set (mPlugins (reload (Some (header @ ''Early.esp'' @ [CR, LF] @ ''Late.esp''))
                          (Some (header @ ''Late.esp'')) (writeFiles 0 True True skyrim))) =
     {''Late.esp'', ''Early.esp''} \<and>
   getSafe_enabled (mPlugins (reload (Some (header @ ''Early.esp'' @ [CR, LF] @ ''Late.esp''))
                          (Some (header @ ''Late.esp'')) (writeFiles 0 True True skyrim))) ''Late.esp'' \<and>
   \<not> getSafe_enabled (mPlugins (reload (Some (header @ ''Early.esp'' @ [CR, LF] @ ''Late.esp''))
                          (Some (header @ ''Late.esp'')) (writeFiles 0 True True skyrim))) ''Early.esp''"
proof -
  have p: "mPluginPath skyrim = Some ''Skyrim''" by code_simp
  have f: "mPluginFormat skyrim = Some original" by code_simp
  have n: "mNativePlugins skyrim = Some {''skyrim.esm''}" by code_simp
  have m: "mPlugins skyrim = [(''Late.esp'', \<lparr>enabled = True, loadOrder = 7\<rparr>),
                      (''Early.esp'', \<lparr>enabled = False, loadOrder = 2\<rparr>)]" by code_simp
  have v: "validName original ''Late.esp''" "validName original ''Early.esp''" by code_simp+
  have l: "toLowerCase ''Late.esp'' \<notin> {''skyrim.esm''}" "toLowerCase ''Early.esp'' \<notin> {''skyrim.esm''}"
    by code_simp+
  have j: "map_of (writeJobs skyrim) 0 = None" by code_simp
  have e: "effects (writeFiles 0 True True skyrim) =
     effects skyrim @
       [WriteFile ''Skyrim'' ''loadorder.txt'' utf8 (header @ ''Early.esp'' @ [CR, LF] @ ''Late.esp''),
        WriteFile ''Skyrim'' ''plugins.txt'' latin1 (header @ ''Late.esp'')]" by code_simp
  have d1: "distinct (map fst (mPlugins skyrim))" by (simp add: m)
  have d2: "distinct (map (\<lambda>e. loadOrder (snd e)) (mPlugins skyrim))" by (simp add: m)
  have a: "\<forall>n \<in> fst ` set (mPlugins skyrim). toLowerCase n \<notin> {''skyrim.esm''} \<and> validName original n"
    using v l by (simp add: m)
  have g: "getSafe_enabled (mPlugins skyrim) ''Late.esp''" "\<not> getSafe_enabled (mPlugins skyrim) ''Early.esp''"
    by (simp_all add: m getSafe_enabled_def)
  obtain lo pl where
    R: "effects (writeFiles 0 True True skyrim) =
          effects skyrim @ [WriteFile ''Skyrim'' ''loadorder.txt'' utf8 lo,
                            WriteFile ''Skyrim'' ''plugins.txt'' latin1 pl] \<and>
        fst ` set (mPlugins (reload (Some lo) (Some pl) (writeFiles 0 True True skyrim))) =
          fst ` set (mPlugins skyrim) \<and>
        distinct (map fst (mPlugins (reload (Some lo) (Some pl) (writeFiles 0 True True skyrim)))) \<and>
        (\<forall>n \<in> fst ` set (mPlugins skyrim).
           getSafe_enabled (mPlugins (reload (Some lo) (Some pl) (writeFiles 0 True True skyrim))) n =
           getSafe_enabled (mPlugins skyrim) n) \<and>
        (\<forall>a \<in> fst ` set (mPlugins skyrim). \<forall>b \<in> fst ` set (mPlugins skyrim).
           (loadOrderOf (mPlugins (reload (Some lo) (Some pl) (writeFiles 0 True True skyrim))) a
              < loadOrderOf (mPlugins (reload (Some lo) (Some pl) (writeFiles 0 True True skyrim))) b) =
           (loadOrderOf (mPlugins skyrim) a < loadOrderOf (mPlugins skyrim) b))"
    using round_trip [OF p f n d1 d2 a j] by (elim exE) (rule that)
  note w = R [THEN conjunct1]
  note k = R [THEN conjunct2, THEN conjunct1]
  note en = R [THEN conjunct2, THEN conjunct2, THEN conjunct2, THEN conjunct1]
  have lo: "lo = header @ ''Early.esp'' @ [CR, LF] @ ''Late.esp''" and pl: "pl = header @ ''Late.esp''"
    using w e by simp_all
  have c1: "fst ` set (mPlugins (reload (Some (header @ ''Early.esp'' @ [CR, LF] @ ''Late.esp''))
                          (Some (header @ ''Late.esp'')) (writeFiles 0 True True skyrim))) =
     {''Late.esp'', ''Early.esp''}"
    using k unfolding lo pl by (simp add: m)
  have c2: "getSafe_enabled (mPlugins (reload (Some (header @ ''Early.esp'' @ [CR, LF] @ ''Late.esp''))
                          (Some (header @ ''Late.esp'')) (writeFiles 0 True True skyrim))) ''Late.esp''"
    using en g(1) unfolding lo pl by (simp add: m)
  have c3: "\<not> getSafe_enabled (mPlugins (reload (Some (header @ ''Early.esp'' @ [CR, LF] @ ''Late.esp''))
                          (Some (header @ ''Late.esp'')) (writeFiles 0 True True skyrim))) ''Early.esp''"
    using en g(2) unfolding lo pl by (simp add: m)
  from p f n m v(1) v(2) j e c1 c2 c3 show ?thesis
    by (intro conjI)
qed

text \<open>
  C8 as stated fails: the names of this map are unique, its \<open>loadOrder\<close> values are
  distinct and no name is native, but the disabled plugin \<open>#Mod.esp\<close> is written as a
  line that \<open>filterFileData\<close> drops as a comment, so the reload loses it.
\<close>

theorem round_trip_counterexample:
  "mPluginFormat hashName = Some fallout4 \<and>
   mNativePlugins hashName = Some {''fallout4.esm''} \<and>
   mPlugins hashName = [(''#Mod.esp'', \<lparr>enabled = False, loadOrder = 0\<rparr>),
                        (''ModB.esp'', \<lparr>enabled = True, loadOrder = 1\<rparr>)] \<and>
   toLowerCase ''#Mod.esp'' \<notin> {''fallout4.esm''} \<and>
   toLowerCase ''ModB.esp'' \<notin> {''fallout4.esm''} \<and>
   effects (writeFiles 0 True True hashName) =
     effects hashName @
       [WriteFile ''Fallout4'' ''loadorder.txt'' utf8 (header @ ''#Mod.esp'' @ [CR, LF] @ ''ModB.esp''),
        WriteFile ''Fallout4'' ''plugins.txt'' latin1 (header @ ''#Mod.esp'' @ [CR, LF] @ ''*ModB.esp'')] \<and>
   mPlugins (reload (Some (header @ ''#Mod.esp'' @ [CR, LF] @ ''ModB.esp''))
               (Some (header @ ''#Mod.esp'' @ [CR, LF] @ ''*ModB.esp''))
               (writeFiles 0 True True hashName)) =
     [(''ModB.esp'', \<lparr>enabled = True, loadOrder = 0\<rparr>)]"
  by code_simp


section \<open>No write before the first load\<close>

text \<open>
  C6. While the loaded flag is false, \<open>serialize\<close> chains nothing: it hands out a
  promise that is already resolved and leaves the state otherwise as it was. The flag
  is set by one event only, the completion of a read of plugins.txt that held data,
  with a reset callback registered, which is the end of a successful reload. In every
  run of the event loop from a new persistor, each write in the trace comes after a
  call of the reset callback; and as long as the flag is false no file has been
  written, no callback waits in the queue and no write is under way.
\<close>

theorem no_write_before_loaded:
  "(\<not> mLoaded st \<longrightarrow>
      serialize st = emit [Settled (promises st) True] (st\<lparr>promises := promises st + 1\<rparr>)) \<and>
   (\<not> mLoaded st \<and> mLoaded (step e st) \<longrightarrow>
      (\<exists>i d np. e = ReadDone i (Some d) \<and> d \<noteq> [] \<and> i < length (readJobs st) \<and>
         readJobs st ! i = ReadingPlugins np \<and> mResetCallback st)) \<and>
   writesFollowReset False (effects (run es constructor)) \<and>
   (\<not> mLoaded (run es constructor) \<longrightarrow>
      filter isWrite (effects (run es constructor)) = [] \<and>
      mSerializeQueue (run es constructor) = [] \<and> writeJobs (run es constructor) = [])"
proof -
  have i: "loadedInvariant (run es constructor)"
    by (rule inv_run [OF inv_constructor])
  have a: "\<not> mLoaded st \<longrightarrow>
      serialize st = emit [Settled (promises st) True] (st\<lparr>promises := promises st + 1\<rparr>)"
    by (simp add: serialize_def Let_def)
  have b: "\<not> mLoaded st \<and> mLoaded (step e st) \<longrightarrow>
      (\<exists>i d np. e = ReadDone i (Some d) \<and> d \<noteq> [] \<and> i < length (readJobs st) \<and>
         readJobs st ! i = ReadingPlugins np \<and> mResetCallback st)"
    using mLoaded_step by blast
  have c: "writesFollowReset False (effects (run es constructor))"
    using i by (simp add: loadedInvariant_def)
  have d: "\<not> mLoaded (run es constructor) \<longrightarrow>
      filter isWrite (effects (run es constructor)) = [] \<and>
      mSerializeQueue (run es constructor) = [] \<and> writeJobs (run es constructor) = []"
    using i no_reset_no_write by (auto simp add: loadedInvariant_def)
  from a b c d show ?thesis by (intro conjI)
qed

theorem no_write_before_loaded_witness:
  "\<not> mLoaded boundFallout4 \<and>
   serialize boundFallout4 = emit [Settled 0 True] (boundFallout4\<lparr>promises := 1\<rparr>) \<and>
   mLoaded (step (ReadDone 0 (Some ''*ModX.esp'')) boundFallout4) \<and>
   \<not> mLoaded earlySetItem \<and>
   filter isWrite (effects earlySetItem) = [] \<and>
   effects earlySetItem =
     [ReadFile ''Fallout4'' ''plugins.txt'', Watch ''Fallout4'' 0, Settled 0 True, Settled 1 True]"
proof -
  have l: "\<not> mLoaded boundFallout4" by code_simp
  have p: "promises boundFallout4 = 0" by code_simp
  have s: "mLoaded (step (ReadDone 0 (Some ''*ModX.esp'')) boundFallout4)" by code_simp
  have e: "\<not> mLoaded earlySetItem" by code_simp
  have t: "effects earlySetItem =
     [ReadFile ''Fallout4'' ''plugins.txt'', Watch ''Fallout4'' 0, Settled 0 True, Settled 1 True]"
    by code_simp
  note n = no_write_before_loaded [of boundFallout4 "ReadDone 0 (Some ''*ModX.esp'')"
      "[SetResetCallback,
          LoadFiles ''Fallout4'' fallout4 {''fallout4.esm''} True,
          SetItem ''loadOrder'' (Some [(''ModX.esp'', \<lparr>enabled = True, loadOrder = 0\<rparr>)]),
          Tick,
          RemoveItem ''ModX.esp'',
          Tick]", folded earlySetItem_def]
  have 1: "serialize boundFallout4 = emit [Settled 0 True] (boundFallout4\<lparr>promises := 1\<rparr>)"
    using n [THEN conjunct1] l p by simp
  have 2: "filter isWrite (effects earlySetItem) = []"
    using n [THEN conjunct2, THEN conjunct2, THEN conjunct2] e by simp
  from l 1 s e 2 t show ?thesis by (intro conjI)
qed

section \<open>The write queue\<close>

text \<open>
  C1 on two requests. \<open>setItem\<close> stores two plugins and the scheduler runs its
  callback, which starts the write of loadorder.txt. The callback returns
  \<open>undefined\<close>, not the promise of \<open>doSerialize\<close>, so promise 0 is fulfilled while
  write 0 is under way. \<open>removeItem\<close> then removes a plugin, and the scheduler runs
  the second callback at once: two writes are under way and both promises are
  fulfilled. When the second write completes before the first, the first one writes
  its plugins.txt last, from the list of names it sorted before the removal: the file
  ends with the removed plugin in it.
\<close>

theorem write_queue_overlap:
  "inFlight overlap = [0, 1] \<and>
   effects overlap =
     effects loadedFallout4 @
       [WriteFile ''Fallout4'' ''loadorder.txt'' utf8
          (header @ ''ModX.esp'' @ [CR, LF] @ ''ModY.esp''),
        Settled 0 True,
        WriteFile ''Fallout4'' ''loadorder.txt'' utf8 (header @ ''ModX.esp''),
        Settled 1 True] \<and>
   mPlugins staleWrite = [(''ModX.esp'', \<lparr>enabled = True, loadOrder = 0\<rparr>)] \<and>
   inFlight staleWrite = [] \<and>
   effects staleWrite =
     effects overlap @
       [WriteFile ''Fallout4'' ''plugins.txt'' latin1 (header @ ''*ModX.esp''),
        WriteFile ''Fallout4'' ''plugins.txt'' latin1
          (header @ ''*ModX.esp'' @ [CR, LF] @ ''ModY.esp'')]"
  by code_simp

end
